theory Spec2Isabelle
  imports Main
begin

section \<open>The attachment queue of \<^verbatim>\<open>src/library/powersync/AttachmentQueue.ts\<close>\<close>

text \<open>
  The class \<^verbatim>\<open>AttachmentQueue\<close> keeps a table of attachment records in a local
  database and moves files between local storage and a remote store. The model is a
  state-passing one:
  \<^item> the record table is a list of rows, and each SQL statement of the source is
    the list operation it denotes; the statements are taken to complete (the
    database is the spec's local transactional store), so an awaited
    \<^verbatim>\<open>update\<close> does not reject;
  \<^item> the storage adapter, the platform's \<^verbatim>\<open>FileReader\<close>, the clock and the
    document directory are collaborators that are not part of the source: they are
    parameters, functions over an opaque world \<open>'w\<close>, and each of them that can
    reject returns either the thrown value or its result;
  \<^item> every call a method makes to a collaborator (database, storage, timer) is
    appended to a log, so that "no call was made" is a statement about the log.
  The methods are \<^verbatim>\<open>async\<close>; the model runs each to completion, one after the
  other, and says nothing about interleavings.
\<close>

subsection \<open>Data model\<close>

text \<open>
  Modelled from the spec: \<^verbatim>\<open>AttachmentState\<close> and \<^verbatim>\<open>AttachmentRecord\<close> are
  declared in \<^verbatim>\<open>./AppSchema\<close>, which is not among the sources. The spec gives the
  four states and the seven columns; the queries of the source compare the state
  column with the members of the enum only.
\<close>

datatype AttachmentState = QUEUED_SYNC | QUEUED_UPLOAD | QUEUED_DOWNLOAD | SYNCED

type_synonym uri = string

record AttachmentRecord =
  id_col :: string
  filename :: string
  local_uri :: "uri option"
  media_type :: "string option"
  size_col :: "int option"
  state :: AttachmentState
  timestamp :: int

text \<open>
  A value thrown inside the queue:
  \<^item> \<open>NoLocalUri\<close>, the \<^verbatim>\<open>Error\<close> that \<^verbatim>\<open>uploadAttachment\<close> constructs itself;
  \<^item> \<open>Thrown\<close>, an object thrown by a collaborator, of which the source reads the
    property \<^verbatim>\<open>error\<close> only (\<open>None\<close> when the object has none);
  \<^item> \<open>ThrownNullish\<close>, a collaborator's rejection with \<^verbatim>\<open>null\<close> or
    \<^verbatim>\<open>undefined\<close>;
  \<^item> \<open>TypeError\<close>, what JavaScript throws when a property of \<^verbatim>\<open>null\<close> or
    \<^verbatim>\<open>undefined\<close> is read.
\<close>

datatype exn = NoLocalUri AttachmentRecord | Thrown "string option" | ThrownNullish | TypeError

text \<open>What \<^verbatim>\<open>downloadFile\<close> resolves to: a blob, with its \<^verbatim>\<open>type\<close>.\<close>

record blob =
  blob_type :: string
  blob_data :: string

text \<open>
  \<^verbatim>\<open>AbstractStorageAdapter\<close> (\<^verbatim>\<open>../storage/AbstractStorageAdapter\<close>, not among the
  sources) is a parameter. \<^verbatim>\<open>fileExists\<close> observes the world; \<^verbatim>\<open>deleteFile\<close>
  changes it and does not reject (the spec: a missing file on delete is tolerated);
  the other operations may reject, and may change the world in either case.
\<close>

record 'w AbstractStorageAdapter =
  makeDir :: "uri \<Rightarrow> 'w \<Rightarrow> (exn + unit) \<times> 'w"
  readFile :: "uri \<Rightarrow> string option \<Rightarrow> 'w \<Rightarrow> (exn + string) \<times> 'w"
  writeFile :: "uri \<Rightarrow> string \<Rightarrow> 'w \<Rightarrow> (exn + unit) \<times> 'w"
  deleteFile :: "string \<Rightarrow> uri \<Rightarrow> 'w \<Rightarrow> 'w"
  fileExists :: "uri \<Rightarrow> 'w \<Rightarrow> bool"
  uploadFile :: "string \<Rightarrow> string \<Rightarrow> string option \<Rightarrow> 'w \<Rightarrow> (exn + unit) \<times> 'w"
  downloadFile :: "string \<Rightarrow> 'w \<Rightarrow> (exn + blob) \<times> 'w"

text \<open>
  The platform: \<^verbatim>\<open>FileSystem.documentDirectory\<close>, the clock read by
  \<^verbatim>\<open>new Date().getTime()\<close>, and the promise that \<^verbatim>\<open>downloadRecord\<close> builds around
  \<^verbatim>\<open>FileReader.readAsDataURL\<close> (the base64 text of a blob, or a rejection).
\<close>

record 'w platform =
  documentDirectory :: string
  getTime :: "'w \<Rightarrow> int"
  readAsBase64 :: "blob \<Rightarrow> 'w \<Rightarrow> (exn + string) \<times> 'w"

record 'w AttachmentQueueOptions =
  storage :: "'w AbstractStorageAdapter"
  getAttachmentIds :: "('w \<Rightarrow> (exn + string list) \<times> 'w) option"
  syncInterval :: "int option"
  cacheLimit :: "int option"

text \<open>The calls to collaborators, in the order they are made.\<close>

datatype call =
    MakeDir uri
  | ReadFile uri
  | WriteFile uri
  | DeleteFile string uri
  | FileExists uri
  | UploadFile string
  | DownloadFile string
  | ReadBlob
  | GetAttachmentIds
  | SqlUpdate string
  | SqlMarkForSync "string list"
  | SqlDelete string
  | SqlDeleteAll
  | SelectNextUpload
  | SelectNextDownloads
  | SelectExpired
  | WatchUploads
  | WatchDownloads
  | SetInterval int

text \<open>
  The queue object (\<^verbatim>\<open>uploading\<close>, \<^verbatim>\<open>downloading\<close>, \<^verbatim>\<open>options\<close>) together with
  what it acts on: the rows of the attachment table, the world of the collaborators,
  and the log of calls.
\<close>

record 'w queue =
  uploading :: bool
  downloading :: bool
  options :: "'w AttachmentQueueOptions"
  platform :: "'w platform"
  table :: "AttachmentRecord list"
  world :: "'w"
  calls :: "call list"

definition ATTACHMENT_LOCAL_STORAGE_KEY :: string where
  "ATTACHMENT_LOCAL_STORAGE_KEY = ''attachments''"

definition ATTACHMENT_STORAGE_PATH :: "'w queue \<Rightarrow> string" where
  "ATTACHMENT_STORAGE_PATH s = documentDirectory (platform s) @ ATTACHMENT_LOCAL_STORAGE_KEY"

definition ATTACHMENT_QUEUE_INTERVAL :: int where
  "ATTACHMENT_QUEUE_INTERVAL = 60000"

definition ATTACHMENT_CACHE_LIMIT :: int where
  "ATTACHMENT_CACHE_LIMIT = 100"

definition logCall :: "call \<Rightarrow> 'w queue \<Rightarrow> 'w queue" where
  "logCall c s = s\<lparr>calls := calls s @ [c]\<rparr>"

subsection \<open>Construction\<close>

text \<open>
  \<^verbatim>\<open>options.syncInterval ?? ATTACHMENT_QUEUE_INTERVAL\<close>: the operator \<^verbatim>\<open>??\<close>
  replaces an absent value only, so a supplied \<open>0\<close> stays \<open>0\<close>.
\<close>

definition constructor ::
  "'w AttachmentQueueOptions \<Rightarrow> 'w platform \<Rightarrow> AttachmentRecord list \<Rightarrow> 'w \<Rightarrow> 'w queue" where
  "constructor opts pf tbl w =
     \<lparr>uploading = False,
      downloading = False,
      options = opts
        \<lparr>syncInterval := Some (case syncInterval opts of None \<Rightarrow> ATTACHMENT_QUEUE_INTERVAL | Some v \<Rightarrow> v),
         cacheLimit := Some (case cacheLimit opts of None \<Rightarrow> ATTACHMENT_CACHE_LIMIT | Some v \<Rightarrow> v)\<rparr>,
      platform = pf,
      table = tbl,
      world = w,
      calls = []\<rparr>"

subsection \<open>Record store\<close>

text \<open>
  JavaScript's truthiness of an optional string: \<^verbatim>\<open>null\<close>, \<^verbatim>\<open>undefined\<close> and the
  empty string are falsy. \<^verbatim>\<open>x || null\<close> is \<open>orNull x\<close>.
\<close>

definition truthy :: "string option \<Rightarrow> bool" where
  "truthy x = (case x of None \<Rightarrow> False | Some v \<Rightarrow> v \<noteq> [])"

definition orNull :: "string option \<Rightarrow> string option" where
  "orNull x = (if truthy x then x else None)"

definition getLocalUri :: "'w queue \<Rightarrow> string \<Rightarrow> string" where
  "getLocalUri s fname = ATTACHMENT_STORAGE_PATH s @ ''/'' @ fname"

text \<open>
  \<^verbatim>\<open>update\<close>: one \<^verbatim>\<open>UPDATE ... WHERE id = ?\<close>, which rewrites six columns of every
  row with the record's id, the timestamp being the clock's reading.
\<close>

definition updateRow :: "int \<Rightarrow> AttachmentRecord \<Rightarrow> AttachmentRecord \<Rightarrow> AttachmentRecord" where
  "updateRow ts record row =
     (if id_col row = id_col record
      then row\<lparr>timestamp := ts,
               filename := filename record,
               local_uri := orNull (local_uri record),
               size_col := size_col record,
               media_type := media_type record,
               state := state record\<rparr>
      else row)"

definition update :: "AttachmentRecord \<Rightarrow> 'w queue \<Rightarrow> 'w queue" where
  "update record s =
     (let ts = getTime (platform s) (world s) in
      logCall (SqlUpdate (id_col record))
        (s\<lparr>table := map (updateRow ts record) (table s)\<rparr>))"

text \<open>
  \<^verbatim>\<open>markForSync\<close> writes each id between single quotes into the text of the
  statement. For ids free of the quote character the text is
  \<^verbatim>\<open>UPDATE ... SET state = QUEUED_SYNC WHERE id IN ('i1',...,'in')\<close>; for other ids
  the text is some other statement, which the model does not interpret (\<open>None\<close>).
\<close>

definition quoteFree :: "string \<Rightarrow> bool" where
  "quoteFree i = (CHR 0x27 \<notin> set i)"

definition markForSync :: "string list \<Rightarrow> 'w queue \<Rightarrow> 'w queue option" where
  "markForSync ids s =
     (if length ids > 0 then
        (if list_all quoteFree ids then
           Some (logCall (SqlMarkForSync ids)
             (s\<lparr>table := map (\<lambda>row. if id_col row \<in> set ids
                                     then row\<lparr>state := QUEUED_SYNC\<rparr> else row) (table s)\<rparr>))
         else None)
      else Some s)"

text \<open>
  The two candidate queries. \<^verbatim>\<open>ORDER BY timestamp ASC\<close> is a stable sort of the
  selected rows (SQL leaves the order of rows with equal timestamps open; the model
  keeps the table's). \<^verbatim>\<open>getOptional\<close> is the first row of the result, if any.
\<close>

definition uploadWhere :: "AttachmentRecord \<Rightarrow> bool" where
  "uploadWhere row =
     (local_uri row \<noteq> None \<and> (state row = QUEUED_UPLOAD \<or> state row = QUEUED_SYNC))"

definition downloadWhere :: "AttachmentRecord \<Rightarrow> bool" where
  "downloadWhere row = (state row = QUEUED_DOWNLOAD \<or> state row = QUEUED_SYNC)"

definition uploadCandidates :: "AttachmentRecord list \<Rightarrow> AttachmentRecord list" where
  "uploadCandidates tbl = sort_key timestamp (filter uploadWhere tbl)"

definition downloadCandidates :: "AttachmentRecord list \<Rightarrow> AttachmentRecord list" where
  "downloadCandidates tbl = sort_key timestamp (filter downloadWhere tbl)"

definition getNextUploadRecord :: "'w queue \<Rightarrow> AttachmentRecord option \<times> 'w queue" where
  "getNextUploadRecord s =
     (case uploadCandidates (table s) of
        [] \<Rightarrow> (None, logCall SelectNextUpload s)
      | row # _ \<Rightarrow> (Some row, logCall SelectNextUpload s))"

definition getNextDownloadRecords :: "'w queue \<Rightarrow> AttachmentRecord list \<times> 'w queue" where
  "getNextDownloadRecords s = (downloadCandidates (table s), logCall SelectNextDownloads s)"

subsection \<open>Upload worker\<close>

text \<open>
  \<^verbatim>\<open>e.error\<close> for a thrown value that is not nullish, and whether it is nullish:
  reading \<^verbatim>\<open>e.error\<close> of a nullish \<^verbatim>\<open>e\<close> throws a \<^verbatim>\<open>TypeError\<close>.
\<close>

definition errorOf :: "exn \<Rightarrow> string option" where
  "errorOf e = (case e of Thrown x \<Rightarrow> x | _ \<Rightarrow> None)"

definition nullish :: "exn \<Rightarrow> bool" where
  "nullish e = (case e of ThrownNullish \<Rightarrow> True | _ \<Rightarrow> False)"

text \<open>The statements of \<^verbatim>\<open>uploadAttachment\<close> inside \<^verbatim>\<open>try\<close>.\<close>

definition tryUpload :: "uri \<Rightarrow> AttachmentRecord \<Rightarrow> 'w queue \<Rightarrow> (exn + unit) \<times> 'w queue" where
  "tryUpload u record s =
     (let s0 = logCall (ReadFile u) s in
      case readFile (storage (options s)) u (media_type record) (world s) of
        (Inl e, w1) \<Rightarrow> (Inl e, s0\<lparr>world := w1\<rparr>)
      | (Inr fileBuffer, w1) \<Rightarrow>
          (let s1 = logCall (UploadFile (filename record)) (s0\<lparr>world := w1\<rparr>) in
           case uploadFile (storage (options s)) (filename record) fileBuffer
                  (if truthy (media_type record) then media_type record else None) w1 of
             (Inl e, w2) \<Rightarrow> (Inl e, s1\<lparr>world := w2\<rparr>)
           | (Inr _, w2) \<Rightarrow> (Inr (), update (record\<lparr>state := SYNCED\<rparr>) (s1\<lparr>world := w2\<rparr>))))"

text \<open>
  \<^verbatim>\<open>uploadAttachment\<close>: \<open>Inl\<close> is the thrown error, \<open>Inr b\<close> the returned
  boolean. \<^verbatim>\<open>!record.local_uri\<close> holds of an absent and of an empty path. The
  first statement of \<^verbatim>\<open>catch\<close> reads \<^verbatim>\<open>e.error\<close>, which throws when the value
  caught is nullish; that error leaves the method.
\<close>

definition uploadAttachment :: "AttachmentRecord \<Rightarrow> 'w queue \<Rightarrow> (exn + bool) \<times> 'w queue" where
  "uploadAttachment record s =
     (case orNull (local_uri record) of
        None \<Rightarrow> (Inl (NoLocalUri record), s)
      | Some u \<Rightarrow>
          (case tryUpload u record s of
             (Inr _, s1) \<Rightarrow> (Inr True, s1)
           | (Inl e, s1) \<Rightarrow>
               (if nullish e then (Inl TypeError, s1)
                else if errorOf e = Some ''Duplicate''
                then (Inr False, update (record\<lparr>state := SYNCED\<rparr>) s1)
                else (Inr False, s1))))"

text \<open>
  The \<^verbatim>\<open>while (record)\<close> loop of \<^verbatim>\<open>uploadRecords\<close>, entered with a record:
  \<open>Inl\<close> when \<^verbatim>\<open>uploadAttachment\<close> throws, \<open>Inr ()\<close> when the loop ends by
  \<^verbatim>\<open>break\<close> or for want of a next record.
\<close>

definition pendingUploads :: "AttachmentRecord \<Rightarrow> 'w queue \<Rightarrow> nat" where
  "pendingUploads record s =
     2 * length (uploadCandidates (table s)) +
     (if id_col record \<in> id_col ` set (uploadCandidates (table s)) then 0 else 1)"

function uploadLoop :: "AttachmentRecord \<Rightarrow> 'w queue \<Rightarrow> (exn + unit) \<times> 'w queue" where
  "uploadLoop record s =
     (case uploadAttachment record s of
        (Inl e, s1) \<Rightarrow> (Inl e, s1)
      | (Inr uploaded, s1) \<Rightarrow>
          (if \<not> uploaded then (Inr (), s1)
           else (case getNextUploadRecord s1 of
                   (None, s2) \<Rightarrow> (Inr (), s2)
                 | (Some next, s2) \<Rightarrow> uploadLoop next s2)))"
  by pat_completeness auto

text \<open>
  \<^verbatim>\<open>uploadRecords\<close>: the busy flag, the first fetch, the loop; \<^verbatim>\<open>catch\<close> logs what
  the loop throws and \<^verbatim>\<open>finally\<close> clears the flag on every path.
\<close>

definition uploadRecords :: "'w queue \<Rightarrow> 'w queue" where
  "uploadRecords s =
     (if uploading s then s
      else (case getNextUploadRecord (s\<lparr>uploading := True\<rparr>) of
              (None, s1) \<Rightarrow> s1\<lparr>uploading := False\<rparr>
            | (Some record, s1) \<Rightarrow>
                (case uploadLoop record s1 of (_, s2) \<Rightarrow> s2\<lparr>uploading := False\<rparr>)))"

subsection \<open>Download worker\<close>

text \<open>
  \<^verbatim>\<open>s.replace(pattern, '')\<close> with a string pattern: the first occurrence of the
  pattern is removed.
\<close>

fun removeFirst :: "string \<Rightarrow> string \<Rightarrow> string" where
  "removeFirst pat [] = []"
| "removeFirst pat (c # cs) =
     (if take (length pat) (c # cs) = pat then drop (length pat) (c # cs)
      else c # removeFirst pat cs)"

text \<open>
  The first statement of \<^verbatim>\<open>downloadRecord\<close> assigns a path derived from the
  filename to a record without one; \<open>withLocalUri\<close> is the record after it.
\<close>

definition withLocalUri :: "'w queue \<Rightarrow> AttachmentRecord \<Rightarrow> AttachmentRecord" where
  "withLocalUri s record =
     (if \<not> truthy (local_uri record)
      then record\<lparr>local_uri := Some (getLocalUri s (filename record))\<rparr>
      else record)"

definition localUriOf :: "'w queue \<Rightarrow> AttachmentRecord \<Rightarrow> uri" where
  "localUriOf s record =
     (case orNull (local_uri record) of
        None \<Rightarrow> getLocalUri s (filename record)
      | Some u \<Rightarrow> u)"

text \<open>The statements of \<^verbatim>\<open>downloadRecord\<close> inside \<^verbatim>\<open>try\<close>, for a record with a path.\<close>

definition tryDownload :: "uri \<Rightarrow> AttachmentRecord \<Rightarrow> 'w queue \<Rightarrow> (exn + unit) \<times> 'w queue" where
  "tryDownload u record s =
     (let s0 = logCall (DownloadFile (filename record)) s in
      case downloadFile (storage (options s)) (filename record) (world s) of
        (Inl e, w1) \<Rightarrow> (Inl e, s0\<lparr>world := w1\<rparr>)
      | (Inr fileBlob, w1) \<Rightarrow>
          (let s1 = logCall ReadBlob (s0\<lparr>world := w1\<rparr>) in
           case readAsBase64 (platform s) fileBlob w1 of
             (Inl e, w2) \<Rightarrow> (Inl e, s1\<lparr>world := w2\<rparr>)
           | (Inr base64Data, w2) \<Rightarrow>
               (let dir = removeFirst (filename record) u;
                    s2 = logCall (MakeDir dir) (s1\<lparr>world := w2\<rparr>) in
                case makeDir (storage (options s)) dir w2 of
                  (Inl e, w3) \<Rightarrow> (Inl e, s2\<lparr>world := w3\<rparr>)
                | (Inr _, w3) \<Rightarrow>
                    (let s3 = logCall (WriteFile u) (s2\<lparr>world := w3\<rparr>) in
                     case writeFile (storage (options s)) u base64Data w3 of
                       (Inl e, w4) \<Rightarrow> (Inl e, s3\<lparr>world := w4\<rparr>)
                     | (Inr _, w4) \<Rightarrow>
                         (Inr (),
                          update (record\<lparr>media_type := Some (blob_type fileBlob), state := SYNCED\<rparr>)
                            (s3\<lparr>world := w4\<rparr>))))))"

text \<open>\<^verbatim>\<open>downloadRecord\<close> returns a boolean; \<^verbatim>\<open>catch\<close> logs and falls through to \<^verbatim>\<open>false\<close>.\<close>

definition downloadRecord :: "AttachmentRecord \<Rightarrow> 'w queue \<Rightarrow> bool \<times> 'w queue" where
  "downloadRecord record0 s =
     (let record = withLocalUri s record0;
          u = localUriOf s record0;
          s0 = logCall (FileExists u) s in
      if fileExists (storage (options s)) u (world s)
      then (True, update (record\<lparr>state := SYNCED\<rparr>) s0)
      else (case tryDownload u record s0 of
              (Inr _, s1) \<Rightarrow> (True, s1)
            | (Inl e, s1) \<Rightarrow> (False, s1)))"

text \<open>The \<^verbatim>\<open>for (const record of recordsToDownload)\<close> loop.\<close>

fun downloadEach :: "AttachmentRecord list \<Rightarrow> 'w queue \<Rightarrow> 'w queue" where
  "downloadEach [] s = s"
| "downloadEach (record # records) s = downloadEach records (snd (downloadRecord record s))"

definition downloadRecords :: "'w queue \<Rightarrow> 'w queue" where
  "downloadRecords s =
     (if downloading s then s
      else (case getNextDownloadRecords (s\<lparr>downloading := True\<rparr>) of
              (recordsToDownload, s1) \<Rightarrow>
                (if length recordsToDownload = 0 then s1\<lparr>downloading := False\<rparr>
                 else (downloadEach recordsToDownload s1)\<lparr>downloading := False\<rparr>)))"

subsection \<open>Cache eviction\<close>

text \<open>
  \<^verbatim>\<open>delete\<close>: one \<^verbatim>\<open>DELETE ... WHERE id = ?\<close> (on the given transaction or on one of
  its own), then the file at \<^verbatim>\<open>record.local_uri || this.getLocalUri(record.filename)\<close>.
\<close>

definition delete :: "AttachmentRecord \<Rightarrow> 'w queue \<Rightarrow> 'w queue" where
  "delete record s =
     (let s1 = logCall (SqlDelete (id_col record))
                 (s\<lparr>table := filter (\<lambda>row. id_col row \<noteq> id_col record) (table s)\<rparr>);
          u = localUriOf s record;
          s2 = logCall (DeleteFile (filename record) u) s1
      in s2\<lparr>world := deleteFile (storage (options s)) (filename record) u (world s)\<rparr>)"

text \<open>
  The selection of \<^verbatim>\<open>expireCache\<close>:
  \<^verbatim>\<open>WHERE state = SYNCED ORDER BY timestamp DESC LIMIT 100 OFFSET cacheLimit\<close>.
  SQLite reads a negative offset as \<open>0\<close>.
\<close>

definition syncedByRecency :: "AttachmentRecord list \<Rightarrow> AttachmentRecord list" where
  "syncedByRecency tbl = sort_key (\<lambda>row. - timestamp row) (filter (\<lambda>row. state row = SYNCED) tbl)"

definition selectExpired :: "int \<Rightarrow> AttachmentRecord list \<Rightarrow> AttachmentRecord list" where
  "selectExpired lim tbl = take 100 (drop (nat lim) (syncedByRecency tbl))"

text \<open>
  \<^verbatim>\<open>expireCache\<close>: with \<^verbatim>\<open>options.cacheLimit\<close> undefined the text of the statement
  ends in \<^verbatim>\<open>OFFSET undefined\<close> and the database rejects it; the constructor always
  sets the option.
\<close>

definition expireCache :: "'w queue \<Rightarrow> (exn + unit) \<times> 'w queue" where
  "expireCache s =
     (case cacheLimit (options s) of
        None \<Rightarrow> (Inl (Thrown None), logCall SelectExpired s)
      | Some lim \<Rightarrow>
          (let res = selectExpired lim (table s);
               s0 = logCall SelectExpired s in
           if length res = 0 then (Inr (), s0)
           else (Inr (), fold delete res s0)))"

definition clearQueue :: "'w queue \<Rightarrow> 'w queue" where
  "clearQueue s = logCall SqlDeleteAll (s\<lparr>table := []\<rparr>)"

subsection \<open>Initialisation\<close>

text \<open>
  The end of \<^verbatim>\<open>init\<close>: the two watchers are started without being awaited, and the
  timer is registered with \<^verbatim>\<open>setInterval(() => this.trigger(), ATTACHMENT_QUEUE_INTERVAL)\<close>.
\<close>

definition startWatchers :: "'w queue \<Rightarrow> 'w queue" where
  "startWatchers s =
     logCall (SetInterval ATTACHMENT_QUEUE_INTERVAL) (logCall WatchDownloads (logCall WatchUploads s))"

text \<open>
  \<^verbatim>\<open>init\<close>: \<open>None\<close> when \<^verbatim>\<open>markForSync\<close> is given an id with a quote character
  (see there); otherwise the thrown value or normal completion, and the state.
\<close>

definition init :: "'w queue \<Rightarrow> ((exn + unit) \<times> 'w queue) option" where
  "init s =
     (let s0 = logCall (MakeDir (ATTACHMENT_STORAGE_PATH s)) s in
      case makeDir (storage (options s)) (ATTACHMENT_STORAGE_PATH s) (world s) of
        (Inl e, w1) \<Rightarrow> Some (Inl e, s0\<lparr>world := w1\<rparr>)
      | (Inr _, w1) \<Rightarrow>
          (case getAttachmentIds (options s) of
             None \<Rightarrow> Some (Inr (), startWatchers (s0\<lparr>world := w1\<rparr>))
           | Some hook \<Rightarrow>
               (let s1 = logCall GetAttachmentIds (s0\<lparr>world := w1\<rparr>) in
                case hook w1 of
                  (Inl e, w2) \<Rightarrow> Some (Inl e, s1\<lparr>world := w2\<rparr>)
                | (Inr attachmentIds, w2) \<Rightarrow>
                    (if length attachmentIds > 0
                     then (case markForSync attachmentIds (s1\<lparr>world := w2\<rparr>) of
                             None \<Rightarrow> None
                           | Some s2 \<Rightarrow> Some (Inr (), startWatchers s2))
                     else Some (Inr (), startWatchers (s1\<lparr>world := w2\<rparr>))))))"

subsection \<open>An in-memory storage adapter\<close>

text \<open>
  A small adapter for the concrete instances below: the world lists the local files,
  the objects of the remote store and the filenames whose transfer fails, and holds
  the clock. Uploading an object that the remote store already has is refused with
  the \<^verbatim>\<open>error\<close> property \<^verbatim>\<open>'Duplicate'\<close>.
\<close>

record disk =
  files :: "uri list"
  remote :: "string list"
  failing :: "string list"
  clock :: int

definition testStorage :: "disk AbstractStorageAdapter" where
  "testStorage =
     \<lparr>makeDir = (\<lambda>u w. (Inr (), w)),
      readFile = (\<lambda>u mt w. if u \<in> set (files w) then (Inr ''bytes'', w) else (Inl (Thrown None), w)),
      writeFile = (\<lambda>u d w. (Inr (), w\<lparr>files := u # files w\<rparr>)),
      deleteFile = (\<lambda>f u w. w\<lparr>files := removeAll u (files w)\<rparr>),
      fileExists = (\<lambda>u w. u \<in> set (files w)),
      uploadFile = (\<lambda>f d mt w.
         if f \<in> set (failing w) then (Inl (Thrown None), w)
         else if f \<in> set (remote w) then (Inl (Thrown (Some ''Duplicate'')), w)
         else (Inr (), w\<lparr>remote := f # remote w\<rparr>)),
      downloadFile = (\<lambda>f w.
         if f \<in> set (failing w) \<or> f \<notin> set (remote w) then (Inl (Thrown None), w)
         else (Inr \<lparr>blob_type = ''image/jpeg'', blob_data = ''bytes''\<rparr>, w))\<rparr>"

definition testPlatform :: "disk platform" where
  "testPlatform =
     \<lparr>documentDirectory = ''/doc/'',
      getTime = clock,
      readAsBase64 = (\<lambda>b w. (Inr (blob_data b), w))\<rparr>"

definition testOptions :: "disk AttachmentQueueOptions" where
  "testOptions =
     \<lparr>storage = testStorage, getAttachmentIds = None, syncInterval = None, cacheLimit = None\<rparr>"

definition testDisk :: disk where
  "testDisk = \<lparr>files = [], remote = [], failing = [], clock = 1000\<rparr>"

definition testRecord :: "string \<Rightarrow> AttachmentState \<Rightarrow> int \<Rightarrow> AttachmentRecord" where
  "testRecord i st ts =
     \<lparr>id_col = i, filename = i @ ''.jpg'', local_uri = Some (''/doc/attachments/'' @ i @ ''.jpg''),
      media_type = Some ''image/jpeg'', size_col = None, state = st, timestamp = ts\<rparr>"

definition queueOf :: "AttachmentRecord list \<Rightarrow> disk \<Rightarrow> disk queue" where
  "queueOf tbl w = constructor testOptions testPlatform tbl w"

definition mixedTable :: "AttachmentRecord list" where
  "mixedTable =
     [testRecord ''a'' QUEUED_UPLOAD 30, testRecord ''b'' SYNCED 10,
      (testRecord ''c'' QUEUED_SYNC 20)\<lparr>local_uri := None\<rparr>, testRecord ''d'' QUEUED_SYNC 5,
      testRecord ''e'' QUEUED_DOWNLOAD 1]"

definition emptyUriRecord :: AttachmentRecord where
  "emptyUriRecord = (testRecord ''a'' QUEUED_UPLOAD 1)\<lparr>local_uri := Some ''''\<rparr>"

definition twoUploads :: "AttachmentRecord list" where
  "twoUploads = [testRecord ''a'' QUEUED_UPLOAD 1, testRecord ''b'' QUEUED_UPLOAD 2]"

definition uploadDisk :: disk where
  "uploadDisk = testDisk\<lparr>files := [''/doc/attachments/a.jpg'', ''/doc/attachments/b.jpg'']\<rparr>"

text \<open>The paths whose existence a log of calls shows to have been checked, in order.\<close>

definition existenceChecks :: "call list \<Rightarrow> uri list" where
  "existenceChecks cs = concat (map (\<lambda>c. case c of FileExists u \<Rightarrow> [u] | _ \<Rightarrow> []) cs)"

definition twoDownloads :: "AttachmentRecord list" where
  "twoDownloads =
     [(testRecord ''x'' QUEUED_DOWNLOAD 1)\<lparr>local_uri := None\<rparr>, testRecord ''y'' QUEUED_DOWNLOAD 2]"

definition presentRecord :: AttachmentRecord where
  "presentRecord = (testRecord ''p'' QUEUED_DOWNLOAD 7)\<lparr>local_uri := None\<rparr>"

definition reconcileOptions :: "disk AttachmentQueueOptions" where
  "reconcileOptions = testOptions\<lparr>getAttachmentIds := Some (\<lambda>w. (Inr [''x'', ''y''], w))\<rparr>"

definition reconcileQueue :: "disk queue" where
  "reconcileQueue = constructor reconcileOptions testPlatform [testRecord ''x'' QUEUED_UPLOAD 1] testDisk"

text \<open>Tables of \<open>n\<close> synced rows with distinct ids, the \<open>i\<close>-th touched at time \<open>i\<close>.\<close>

definition rowId :: "nat \<Rightarrow> string" where
  "rowId n = replicate (Suc n) (CHR ''r'')"

definition syncedRows :: "nat \<Rightarrow> AttachmentRecord list" where
  "syncedRows n = map (\<lambda>i. testRecord (rowId i) SYNCED (int i)) [0..<n]"

definition manySynced :: "disk queue" where
  "manySynced = constructor (testOptions\<lparr>cacheLimit := Some 0\<rparr>) testPlatform (syncedRows 101) testDisk"

text \<open>
  The calls that \<^verbatim>\<open>downloadRecord\<close> has made, for a path \<open>u\<close> and a filename
  \<open>f\<close>, when one of the statements inside \<^verbatim>\<open>try\<close> rejects: the existence check,
  then the calls up to the rejecting one.
\<close>

definition rejectedCalls :: "uri \<Rightarrow> string \<Rightarrow> call list set" where
  "rejectedCalls u f =
     {[FileExists u, DownloadFile f],
      [FileExists u, DownloadFile f, ReadBlob],
      [FileExists u, DownloadFile f, ReadBlob, MakeDir (removeFirst f u)],
      [FileExists u, DownloadFile f, ReadBlob, MakeDir (removeFirst f u), WriteFile u]}"

section \<open>Properties\<close>

subsection \<open>Basic facts about the record store\<close>

lemma table_logCall [simp]: "table (logCall c s) = table s"
  by (simp add: logCall_def)

lemma calls_logCall [simp]: "calls (logCall c s) = calls s @ [c]"
  by (simp add: logCall_def)

lemma world_logCall [simp]: "world (logCall c s) = world s"
  by (simp add: logCall_def)

lemma options_logCall [simp]: "options (logCall c s) = options s"
  by (simp add: logCall_def)

lemma platform_logCall [simp]: "platform (logCall c s) = platform s"
  by (simp add: logCall_def)

lemma flags_logCall [simp]:
  "uploading (logCall c s) = uploading s" "downloading (logCall c s) = downloading s"
  by (simp_all add: logCall_def)

lemma table_update:
  "table (update r s) = map (updateRow (getTime (platform s) (world s)) r) (table s)"
  by (simp add: update_def Let_def)

lemma calls_update: "calls (update r s) = calls s @ [SqlUpdate (id_col r)]"
  by (simp add: update_def Let_def)

lemma frame_update [simp]:
  "world (update r s) = world s" "options (update r s) = options s"
  "platform (update r s) = platform s" "uploading (update r s) = uploading s"
  "downloading (update r s) = downloading s"
  by (simp_all add: update_def Let_def)

lemma set_uploadCandidates: "set (uploadCandidates tbl) = {row \<in> set tbl. uploadWhere row}"
  by (auto simp: uploadCandidates_def)

lemma set_downloadCandidates: "set (downloadCandidates tbl) = {row \<in> set tbl. downloadWhere row}"
  by (auto simp: downloadCandidates_def)

lemma length_uploadCandidates: "length (uploadCandidates tbl) = length (filter uploadWhere tbl)"
  by (simp add: uploadCandidates_def)

lemma filter_uploadWhere_updateRow:
  "state r = SYNCED \<Longrightarrow>
   filter uploadWhere (map (updateRow ts r) tbl) =
   filter (\<lambda>row. id_col row \<noteq> id_col r) (filter uploadWhere tbl)"
  by (induction tbl) (auto simp: updateRow_def uploadWhere_def)

lemma getNextUploadRecord_Some:
  "getNextUploadRecord s = (Some r, s1) \<Longrightarrow>
   r \<in> set (uploadCandidates (table s)) \<and> s1 = logCall SelectNextUpload s"
  by (auto simp: getNextUploadRecord_def split: list.splits)

lemma getNextUploadRecord_None:
  "getNextUploadRecord s = (None, s1) \<Longrightarrow>
   uploadCandidates (table s) = [] \<and> s1 = logCall SelectNextUpload s"
  by (auto simp: getNextUploadRecord_def split: list.splits)

subsection \<open>The upload loop ends\<close>

lemma tryUpload_ok_table:
  "tryUpload u r s = (Inr x, s1) \<Longrightarrow>
   \<exists>ts. table s1 = map (updateRow ts (r\<lparr>state := SYNCED\<rparr>)) (table s)"
  by (auto simp: tryUpload_def Let_def table_update split: prod.splits sum.splits)

lemma uploadAttachment_True_table:
  "uploadAttachment r s = (Inr True, s1) \<Longrightarrow>
   \<exists>ts. table s1 = map (updateRow ts (r\<lparr>state := SYNCED\<rparr>)) (table s)"
  by (auto simp: uploadAttachment_def split: option.splits prod.splits sum.splits if_splits
           dest: tryUpload_ok_table)

lemma uploadLoop_decreases:
  assumes "uploadAttachment r s = (Inr True, s1)" and "getNextUploadRecord s1 = (Some n, s2)"
  shows "pendingUploads n s2 < pendingUploads r s"
proof -
  obtain ts where t1: "table s1 = map (updateRow ts (r\<lparr>state := SYNCED\<rparr>)) (table s)"
    using uploadAttachment_True_table [OF assms(1)] by blast
  from getNextUploadRecord_Some [OF assms(2)]
  have n: "n \<in> set (uploadCandidates (table s2))" and t2: "table s2 = table s1" by simp_all
  have f: "filter uploadWhere (table s2) =
           filter (\<lambda>row. id_col row \<noteq> id_col r) (filter uploadWhere (table s))"
    using filter_uploadWhere_updateRow [of "r\<lparr>state := SYNCED\<rparr>" ts "table s"] t1 t2 by simp
  have le: "length (filter uploadWhere (table s2)) \<le> length (filter uploadWhere (table s))"
    unfolding f by (rule length_filter_le)
  show ?thesis
  proof (cases "id_col r \<in> id_col ` set (uploadCandidates (table s))")
    case True
    then obtain row where "row \<in> set (filter uploadWhere (table s))" "id_col row = id_col r"
      by (auto simp: set_uploadCandidates)
    then have "length (filter uploadWhere (table s2)) < length (filter uploadWhere (table s))"
      unfolding f by (intro length_filter_less [of row]) auto
    with n show ?thesis
      by (simp add: pendingUploads_def length_uploadCandidates)
  next
    case False
    with n le show ?thesis
      by (simp add: pendingUploads_def length_uploadCandidates)
  qed
qed

termination uploadLoop
  by (relation "measure (\<lambda>(r, s). pendingUploads r s)")
     (auto intro: uploadLoop_decreases [OF sym sym])

declare uploadLoop.simps [simp del]

lemma table_queueOf [simp]: "table (queueOf tbl w) = tbl"
  by (simp add: queueOf_def constructor_def)

subsection \<open>Candidate queries\<close>

lemma sorted_uploadCandidates: "sorted (map timestamp (uploadCandidates tbl))"
  by (simp add: uploadCandidates_def)

lemma sorted_downloadCandidates: "sorted (map timestamp (downloadCandidates tbl))"
  by (simp add: downloadCandidates_def)

text \<open>
  C8. On every table, the upload query selects exactly the rows with a non-null
  \<^verbatim>\<open>local_uri\<close> and state \<^verbatim>\<open>QUEUED_UPLOAD\<close> or \<^verbatim>\<open>QUEUED_SYNC\<close>, and
  \<^verbatim>\<open>getNextUploadRecord\<close> returns the first of them by ascending timestamp; the
  download query selects exactly the rows with state \<^verbatim>\<open>QUEUED_DOWNLOAD\<close> or
  \<^verbatim>\<open>QUEUED_SYNC\<close>, by ascending timestamp. So a \<^verbatim>\<open>SYNCED\<close> row is in neither result
  and a row with a null \<^verbatim>\<open>local_uri\<close> is never an upload candidate.
\<close>

theorem candidate_queries:
  fixes s :: "'w queue"
  shows
  "(\<forall>r. fst (getNextUploadRecord s) = Some r \<longrightarrow>
      r \<in> set (table s) \<and> local_uri r \<noteq> None \<and>
      (state r = QUEUED_UPLOAD \<or> state r = QUEUED_SYNC) \<and>
      (\<forall>row \<in> set (uploadCandidates (table s)). timestamp r \<le> timestamp row)) \<and>
   (case uploadCandidates (table s) of [] \<Rightarrow> fst (getNextUploadRecord s) = None
      | row # _ \<Rightarrow> fst (getNextUploadRecord s) = Some row) \<and>
   set (uploadCandidates (table s)) =
     {row \<in> set (table s). local_uri row \<noteq> None \<and>
                             (state row = QUEUED_UPLOAD \<or> state row = QUEUED_SYNC)} \<and>
   sorted (map timestamp (uploadCandidates (table s))) \<and>
   fst (getNextDownloadRecords s) = downloadCandidates (table s) \<and>
   set (fst (getNextDownloadRecords s)) =
     {row \<in> set (table s). state row = QUEUED_DOWNLOAD \<or> state row = QUEUED_SYNC} \<and>
   sorted (map timestamp (fst (getNextDownloadRecords s))) \<and>
   (\<forall>row. state row = SYNCED \<longrightarrow>
      fst (getNextUploadRecord s) \<noteq> Some row \<and> row \<notin> set (uploadCandidates (table s)) \<and>
      row \<notin> set (fst (getNextDownloadRecords s))) \<and>
   (\<forall>row. local_uri row = None \<longrightarrow>
      fst (getNextUploadRecord s) \<noteq> Some row \<and> row \<notin> set (uploadCandidates (table s)))"
proof -
  have up: "fst (getNextUploadRecord s) = Some r \<Longrightarrow>
            r \<in> set (uploadCandidates (table s)) \<and>
            (\<forall>row \<in> set (uploadCandidates (table s)). timestamp r \<le> timestamp row)" for r
    using sorted_uploadCandidates [of "table s"]
    by (auto simp: getNextUploadRecord_def split: list.splits)
  have hd: "(case uploadCandidates (table s) of [] \<Rightarrow> fst (getNextUploadRecord s) = None
      | row # _ \<Rightarrow> fst (getNextUploadRecord s) = Some row)"
    by (simp add: getNextUploadRecord_def split: list.splits)
  have dn: "fst (getNextDownloadRecords s) = downloadCandidates (table s)"
    by (simp add: getNextDownloadRecords_def)
  show ?thesis
    using up hd
    by (auto simp: dn set_uploadCandidates set_downloadCandidates uploadWhere_def downloadWhere_def
                   sorted_uploadCandidates sorted_downloadCandidates)
qed

lemma uploadCandidates_mixedTable:
  "uploadCandidates mixedTable = [testRecord ''d'' QUEUED_SYNC 5, testRecord ''a'' QUEUED_UPLOAD 30]"
  by (simp add: uploadCandidates_def uploadWhere_def testRecord_def mixedTable_def)

lemma downloadCandidates_mixedTable:
  "downloadCandidates mixedTable =
     [testRecord ''e'' QUEUED_DOWNLOAD 1, testRecord ''d'' QUEUED_SYNC 5,
      (testRecord ''c'' QUEUED_SYNC 20)\<lparr>local_uri := None\<rparr>]"
  by (simp add: downloadCandidates_def downloadWhere_def testRecord_def mixedTable_def)

theorem candidate_queries_witness:
  "fst (getNextUploadRecord (queueOf mixedTable testDisk)) = Some (testRecord ''d'' QUEUED_SYNC 5) \<and>
   testRecord ''d'' QUEUED_SYNC 5 \<in> set mixedTable \<and>
   local_uri (testRecord ''d'' QUEUED_SYNC 5) \<noteq> None \<and>
   timestamp (testRecord ''d'' QUEUED_SYNC 5) \<le> timestamp (testRecord ''a'' QUEUED_UPLOAD 30) \<and>
   testRecord ''a'' QUEUED_UPLOAD 30 \<in> set (uploadCandidates mixedTable) \<and>
   state (testRecord ''b'' SYNCED 10) = SYNCED \<and>
   testRecord ''b'' SYNCED 10 \<in> set mixedTable \<and>
   testRecord ''b'' SYNCED 10 \<notin> set (uploadCandidates mixedTable) \<and>
   testRecord ''b'' SYNCED 10 \<notin> set (fst (getNextDownloadRecords (queueOf mixedTable testDisk))) \<and>
   local_uri ((testRecord ''c'' QUEUED_SYNC 20)\<lparr>local_uri := None\<rparr>) = None \<and>
   (testRecord ''c'' QUEUED_SYNC 20)\<lparr>local_uri := None\<rparr> \<in> set mixedTable \<and>
   (testRecord ''c'' QUEUED_SYNC 20)\<lparr>local_uri := None\<rparr> \<notin> set (uploadCandidates mixedTable)"
proof -
  let ?q = "queueOf mixedTable testDisk"
  have h: "fst (getNextUploadRecord ?q) = Some (testRecord ''d'' QUEUED_SYNC 5)"
    by (simp add: getNextUploadRecord_def uploadCandidates_mixedTable)
  have a: "testRecord ''a'' QUEUED_UPLOAD 30 \<in> set (uploadCandidates mixedTable)"
    by (simp add: uploadCandidates_mixedTable)
  have b: "state (testRecord ''b'' SYNCED 10) = SYNCED"
    by (simp add: testRecord_def)
  have c: "local_uri ((testRecord ''c'' QUEUED_SYNC 20)\<lparr>local_uri := None\<rparr>) = None"
    by simp
  have m: "testRecord ''d'' QUEUED_SYNC 5 \<in> set mixedTable"
          "testRecord ''b'' SYNCED 10 \<in> set mixedTable"
          "(testRecord ''c'' QUEUED_SYNC 20)\<lparr>local_uri := None\<rparr> \<in> set mixedTable"
    by (simp_all add: mixedTable_def)
  note T = candidate_queries [of ?q]
  from T h have d: "local_uri (testRecord ''d'' QUEUED_SYNC 5) \<noteq> None \<and>
      (\<forall>row \<in> set (uploadCandidates (table ?q)).
          timestamp (testRecord ''d'' QUEUED_SYNC 5) \<le> timestamp row)"
    by blast
  from T b have b': "testRecord ''b'' SYNCED 10 \<notin> set (uploadCandidates (table ?q)) \<and>
      testRecord ''b'' SYNCED 10 \<notin> set (fst (getNextDownloadRecords ?q))"
    by blast
  from T c have c': "(testRecord ''c'' QUEUED_SYNC 20)\<lparr>local_uri := None\<rparr>
      \<notin> set (uploadCandidates (table ?q))"
    by blast
  from h a b c m d b' c' show ?thesis
    by simp
qed

subsection \<open>Upload worker\<close>

lemma queueOf_simps [simp]:
  "options (queueOf tbl w) = testOptions\<lparr>syncInterval := Some 60000, cacheLimit := Some 100\<rparr>"
  "world (queueOf tbl w) = w" "calls (queueOf tbl w) = []" "platform (queueOf tbl w) = testPlatform"
  "uploading (queueOf tbl w) = False" "downloading (queueOf tbl w) = False"
  by (simp_all add: queueOf_def constructor_def testOptions_def
        ATTACHMENT_QUEUE_INTERVAL_def ATTACHMENT_CACHE_LIMIT_def)

lemma storage_testOptions [simp]: "storage (testOptions\<lparr>syncInterval := a, cacheLimit := b\<rparr>) = testStorage"
  by (simp add: testOptions_def)

lemma orNull_None: "orNull x = None \<longleftrightarrow> x = None \<or> x = Some []"
  by (cases x) (auto simp: orNull_def truthy_def)

lemma uploadAttachment_no_uri:
  "orNull (local_uri r) = None \<Longrightarrow> uploadAttachment r s = (Inl (NoLocalUri r), s)"
  by (simp add: uploadAttachment_def)

lemma uploadAttachment_with_uri:
  "orNull (local_uri r) = Some u \<Longrightarrow> fst (uploadAttachment r s) \<noteq> Inl (NoLocalUri r')"
  by (auto simp: uploadAttachment_def split: prod.splits sum.splits)

lemma getNextUploadRecord_fst_cong:
  "table s' = table s \<Longrightarrow> fst (getNextUploadRecord s') = fst (getNextUploadRecord s)"
  by (simp add: getNextUploadRecord_def split: list.splits)

lemma uploadRecords_head_raises:
  assumes "\<not> uploading s" and "fst (getNextUploadRecord s) = Some r"
    and "orNull (local_uri r) = None"
  shows "uploadRecords s = (logCall SelectNextUpload s)\<lparr>uploading := False\<rparr>"
proof -
  let ?s0 = "logCall SelectNextUpload (s\<lparr>uploading := True\<rparr>)"
  have g: "getNextUploadRecord (s\<lparr>uploading := True\<rparr>) = (Some r, ?s0)"
    using assms(2) by (auto simp: getNextUploadRecord_def split: list.splits)
  have "uploadAttachment r ?s0 = (Inl (NoLocalUri r), ?s0)"
    by (rule uploadAttachment_no_uri [OF assms(3)])
  then have l: "uploadLoop r ?s0 = (Inl (NoLocalUri r), ?s0)"
    by (subst uploadLoop.simps) simp
  have "uploadRecords s = ?s0\<lparr>uploading := False\<rparr>"
    using assms(1) by (simp add: uploadRecords_def g l)
  then show ?thesis
    by (simp add: logCall_def)
qed

text \<open>
  C9, as amended. \<^verbatim>\<open>uploadAttachment\<close> throws its error for a missing
  \<^verbatim>\<open>local_uri\<close> exactly when the record's \<^verbatim>\<open>local_uri\<close> is falsy, that is null
  or the empty string; it then throws before any storage read, remote upload or
  database update: the state (table, world and log of calls) is the one it was
  given. The error is not swallowed and nothing is retried in the pass:
  \<^verbatim>\<open>uploadRecords\<close>, having fetched such a record, ends with the fetch as its only
  call and the table as before, so that the next pass fetches the same record.
\<close>

theorem uploadAttachment_missing_local_uri:
  "((\<exists>r'. fst (uploadAttachment r s) = Inl (NoLocalUri r')) \<longleftrightarrow>
      (local_uri r = None \<or> local_uri r = Some [])) \<and>
   (local_uri r = None \<or> local_uri r = Some [] \<longrightarrow>
      uploadAttachment r s = (Inl (NoLocalUri r), s)) \<and>
   ((local_uri r = None \<or> local_uri r = Some []) \<and>
    \<not> uploading s \<and> fst (getNextUploadRecord s) = Some r \<longrightarrow>
      table (uploadRecords s) = table s \<and>
      world (uploadRecords s) = world s \<and>
      calls (uploadRecords s) = calls s @ [SelectNextUpload] \<and>
      \<not> uploading (uploadRecords s) \<and>
      fst (getNextUploadRecord (uploadRecords s)) = Some r)"
proof (cases "orNull (local_uri r)")
  case None
  then have f: "local_uri r = None \<or> local_uri r = Some []"
    by (simp add: orNull_None)
  have a: "uploadAttachment r s = (Inl (NoLocalUri r), s)"
    by (rule uploadAttachment_no_uri [OF None])
  have p: "\<not> uploading s \<and> fst (getNextUploadRecord s) = Some r \<longrightarrow>
      table (uploadRecords s) = table s \<and>
      world (uploadRecords s) = world s \<and>
      calls (uploadRecords s) = calls s @ [SelectNextUpload] \<and>
      \<not> uploading (uploadRecords s) \<and>
      fst (getNextUploadRecord (uploadRecords s)) = Some r"
  proof (intro impI)
    assume h: "\<not> uploading s \<and> fst (getNextUploadRecord s) = Some r"
    then have u: "uploadRecords s = (logCall SelectNextUpload s)\<lparr>uploading := False\<rparr>"
      using uploadRecords_head_raises [OF _ _ None] by blast
    have "fst (getNextUploadRecord (uploadRecords s)) = fst (getNextUploadRecord s)"
      by (rule getNextUploadRecord_fst_cong) (simp add: u)
    with h show "table (uploadRecords s) = table s \<and>
      world (uploadRecords s) = world s \<and>
      calls (uploadRecords s) = calls s @ [SelectNextUpload] \<and>
      \<not> uploading (uploadRecords s) \<and>
      fst (getNextUploadRecord (uploadRecords s)) = Some r"
      by (simp add: u)
  qed
  from f a p show ?thesis
    by simp
next
  case (Some u)
  then have "\<not> (local_uri r = None \<or> local_uri r = Some [])"
    using orNull_None [of "local_uri r"] by simp
  with uploadAttachment_with_uri [OF Some, of s] show ?thesis
    by auto
qed

theorem uploadAttachment_missing_local_uri_witness:
  "local_uri emptyUriRecord = Some [] \<and>
   \<not> uploading (queueOf [emptyUriRecord] testDisk) \<and>
   fst (getNextUploadRecord (queueOf [emptyUriRecord] testDisk)) = Some emptyUriRecord \<and>
   uploadAttachment emptyUriRecord (queueOf [emptyUriRecord] testDisk)
     = (Inl (NoLocalUri emptyUriRecord), queueOf [emptyUriRecord] testDisk) \<and>
   table (uploadRecords (queueOf [emptyUriRecord] testDisk)) = [emptyUriRecord] \<and>
   calls (uploadRecords (queueOf [emptyUriRecord] testDisk)) = [SelectNextUpload] \<and>
   fst (getNextUploadRecord (uploadRecords (queueOf [emptyUriRecord] testDisk))) = Some emptyUriRecord"
proof -
  let ?q = "queueOf [emptyUriRecord] testDisk"
  have h: "local_uri emptyUriRecord = Some []"
    by (simp add: emptyUriRecord_def)
  have g: "\<not> uploading ?q \<and> fst (getNextUploadRecord ?q) = Some emptyUriRecord"
    by (simp add: getNextUploadRecord_def uploadCandidates_def uploadWhere_def
          emptyUriRecord_def testRecord_def)
  note T = uploadAttachment_missing_local_uri [of emptyUriRecord ?q]
  from T h have a: "uploadAttachment emptyUriRecord ?q = (Inl (NoLocalUri emptyUriRecord), ?q)"
    by blast
  from T h g have "table (uploadRecords ?q) = table ?q \<and>
      calls (uploadRecords ?q) = calls ?q @ [SelectNextUpload] \<and>
      fst (getNextUploadRecord (uploadRecords ?q)) = Some emptyUriRecord"
    by blast
  with h g a show ?thesis
    by simp
qed

text \<open>
  C9 as stated ("if and only if the record has a null \<^verbatim>\<open>local_uri\<close>") fails for
  a record whose \<^verbatim>\<open>local_uri\<close> is the empty string: it is not null, and
  \<^verbatim>\<open>!record.local_uri\<close> holds of it.
\<close>

theorem uploadAttachment_null_only_counterexample:
  "local_uri emptyUriRecord \<noteq> None \<and>
   fst (uploadAttachment emptyUriRecord (queueOf [emptyUriRecord] testDisk)) = Inl (NoLocalUri emptyUriRecord)"
  by (simp add: emptyUriRecord_def uploadAttachment_def orNull_def truthy_def)

lemma tryUpload_upload_fails:
  assumes "readFile (storage (options s)) u (media_type r) (world s) = (Inr buf, w1)"
    and "uploadFile (storage (options s)) (filename r) buf
           (if truthy (media_type r) then media_type r else None) w1 = (Inl e, w2)"
  shows "tryUpload u r s =
           (Inl e, s\<lparr>calls := calls s @ [ReadFile u, UploadFile (filename r)], world := w2\<rparr>)"
  using assms by (simp add: tryUpload_def Let_def logCall_def)

lemma uploadAttachment_nullish_rejection:
  assumes "orNull (local_uri r) = Some u"
    and "readFile (storage (options s)) u (media_type r) (world s) = (Inr buf, w1)"
    and "uploadFile (storage (options s)) (filename r) buf
           (if truthy (media_type r) then media_type r else None) w1 = (Inl ThrownNullish, w2)"
  shows "uploadAttachment r s =
           (Inl TypeError, s\<lparr>calls := calls s @ [ReadFile u, UploadFile (filename r)], world := w2\<rparr>)"
  using assms(1) tryUpload_upload_fails [OF assms(2,3)]
  by (simp add: uploadAttachment_def nullish_def)

lemma uploadLoop_upload_fails:
  assumes "orNull (local_uri r) = Some u"
    and "readFile (storage (options s)) u (media_type r) (world s) = (Inr buf, w1)"
    and "uploadFile (storage (options s)) (filename r) buf
           (if truthy (media_type r) then media_type r else None) w1 = (Inl e, w2)"
    and "errorOf e \<noteq> Some ''Duplicate''"
  shows "uploadLoop r s =
           (if nullish e then Inl TypeError else Inr (),
            s\<lparr>calls := calls s @ [ReadFile u, UploadFile (filename r)], world := w2\<rparr>)"
proof -
  have "uploadAttachment r s =
          (if nullish e then Inl TypeError else Inr False,
           s\<lparr>calls := calls s @ [ReadFile u, UploadFile (filename r)], world := w2\<rparr>)"
    using assms(1,4) tryUpload_upload_fails [OF assms(2,3)]
    by (simp add: uploadAttachment_def)
  then show ?thesis
    by (subst uploadLoop.simps) simp
qed

text \<open>
  C5. When the remote upload of a candidate fails with anything but the duplicate
  signal, the loop ends there (by \<^verbatim>\<open>break\<close>, or by the \<^verbatim>\<open>TypeError\<close> of the
  \<^verbatim>\<open>catch\<close> block when the rejection is nullish): the table is as before, the log gains the read and
  the upload of that record and nothing else (no further fetch, no further
  attempt), and the next fetch returns what it returned before. For a pass started
  by \<^verbatim>\<open>uploadRecords\<close> on the head of the queue, the same holds of the whole pass.
\<close>

theorem upload_failure_aborts_pass:
  assumes "orNull (local_uri r) = Some u"
    and "readFile (storage (options s)) u (media_type r) (world s) = (Inr buf, w1)"
    and "uploadFile (storage (options s)) (filename r) buf
           (if truthy (media_type r) then media_type r else None) w1 = (Inl e, w2)"
    and "errorOf e \<noteq> Some ''Duplicate''"
  shows "(\<exists>s'. uploadLoop r s = (if nullish e then Inl TypeError else Inr (), s') \<and>
            table s' = table s \<and>
            calls s' = calls s @ [ReadFile u, UploadFile (filename r)] \<and>
            fst (getNextUploadRecord s') = fst (getNextUploadRecord s)) \<and>
         (\<not> uploading s \<and> fst (getNextUploadRecord s) = Some r \<longrightarrow>
            table (uploadRecords s) = table s \<and>
            calls (uploadRecords s) = calls s @ [SelectNextUpload, ReadFile u, UploadFile (filename r)] \<and>
            \<not> uploading (uploadRecords s) \<and>
            fst (getNextUploadRecord (uploadRecords s)) = Some r)"
proof (intro conjI impI)
  show "\<exists>s'. uploadLoop r s = (if nullish e then Inl TypeError else Inr (), s') \<and> table s' = table s \<and>
            calls s' = calls s @ [ReadFile u, UploadFile (filename r)] \<and>
            fst (getNextUploadRecord s') = fst (getNextUploadRecord s)"
    using uploadLoop_upload_fails [OF assms]
      getNextUploadRecord_fst_cong
        [of "s\<lparr>calls := calls s @ [ReadFile u, UploadFile (filename r)], world := w2\<rparr>" s]
    by simp
next
  assume a: "\<not> uploading s \<and> fst (getNextUploadRecord s) = Some r"
  let ?s0 = "logCall SelectNextUpload (s\<lparr>uploading := True\<rparr>)"
  have g: "getNextUploadRecord (s\<lparr>uploading := True\<rparr>) = (Some r, ?s0)"
    using a by (auto simp: getNextUploadRecord_def split: list.splits)
  have l: "uploadLoop r ?s0 =
           (if nullish e then Inl TypeError else Inr (),
            ?s0\<lparr>calls := calls ?s0 @ [ReadFile u, UploadFile (filename r)], world := w2\<rparr>)"
    by (rule uploadLoop_upload_fails [OF assms(1) _ _ assms(4)]) (use assms(2,3) in simp_all)
  have u: "uploadRecords s =
        ?s0\<lparr>calls := calls ?s0 @ [ReadFile u, UploadFile (filename r)], world := w2, uploading := False\<rparr>"
    using a by (simp add: uploadRecords_def g l)
  have t: "table (uploadRecords s) = table s"
    by (simp add: u)
  show "table (uploadRecords s) = table s" by (rule t)
  show "calls (uploadRecords s) = calls s @ [SelectNextUpload, ReadFile u, UploadFile (filename r)]"
    by (simp add: u)
  show "\<not> uploading (uploadRecords s)"
    by (simp add: u)
  show "fst (getNextUploadRecord (uploadRecords s)) = Some r"
    using a getNextUploadRecord_fst_cong [OF t] by simp
qed

lemma uploadCandidates_twoUploads: "uploadCandidates twoUploads = twoUploads"
  by (simp add: uploadCandidates_def uploadWhere_def twoUploads_def testRecord_def)

theorem upload_failure_aborts_pass_witness:
  "orNull (local_uri (testRecord ''a'' QUEUED_UPLOAD 1)) = Some ''/doc/attachments/a.jpg'' \<and>
   errorOf (Thrown None) \<noteq> Some ''Duplicate'' \<and>
   fst (getNextUploadRecord (queueOf twoUploads (uploadDisk\<lparr>failing := [''a.jpg'']\<rparr>)))
     = Some (testRecord ''a'' QUEUED_UPLOAD 1) \<and>
   table (uploadRecords (queueOf twoUploads (uploadDisk\<lparr>failing := [''a.jpg'']\<rparr>))) = twoUploads \<and>
   calls (uploadRecords (queueOf twoUploads (uploadDisk\<lparr>failing := [''a.jpg'']\<rparr>)))
     = [SelectNextUpload, ReadFile ''/doc/attachments/a.jpg'', UploadFile ''a.jpg'']"
proof -
  let ?a = "testRecord ''a'' QUEUED_UPLOAD 1"
  let ?w = "uploadDisk\<lparr>failing := [''a.jpg'']\<rparr>"
  let ?q = "queueOf twoUploads ?w"
  have h1: "orNull (local_uri ?a) = Some ''/doc/attachments/a.jpg''"
    by (simp add: testRecord_def orNull_def truthy_def)
  have h2: "readFile (storage (options ?q)) ''/doc/attachments/a.jpg'' (media_type ?a) (world ?q)
              = (Inr ''bytes'', ?w)"
    by (simp add: testStorage_def uploadDisk_def)
  have h3: "uploadFile (storage (options ?q)) (filename ?a) ''bytes''
              (if truthy (media_type ?a) then media_type ?a else None) ?w = (Inl (Thrown None), ?w)"
    by (simp add: testStorage_def testRecord_def)
  have h4: "errorOf (Thrown None) \<noteq> Some ''Duplicate''"
    by (simp add: errorOf_def)
  have h5: "\<not> uploading ?q \<and> fst (getNextUploadRecord ?q) = Some ?a"
    by (simp add: getNextUploadRecord_def uploadCandidates_twoUploads) (simp add: twoUploads_def)
  from upload_failure_aborts_pass [OF h1 h2 h3 h4] h5
  have "table (uploadRecords ?q) = table ?q \<and>
        calls (uploadRecords ?q) = calls ?q @ [SelectNextUpload, ReadFile ''/doc/attachments/a.jpg'',
                                              UploadFile (filename ?a)]"
    by blast
  then show ?thesis
    using h1 h4 h5 by (simp add: testRecord_def)
qed

text \<open>
  C4, evaluated on the code. Two records wait for upload, \<open>a\<close> before \<open>b\<close>, and the
  remote store already holds \<^verbatim>\<open>a.jpg\<close>: \<open>a\<close> becomes \<^verbatim>\<open>SYNCED\<close> and the pass ends
  without fetching or uploading \<open>b\<close>. When the remote store does not hold
  \<^verbatim>\<open>a.jpg\<close>, the pass goes on to \<open>b\<close>.
\<close>

theorem duplicate_upload_stops_pass:
  "map state (table (uploadRecords (queueOf twoUploads (uploadDisk\<lparr>remote := [''a.jpg'']\<rparr>))))
     = [SYNCED, QUEUED_UPLOAD] \<and>
   calls (uploadRecords (queueOf twoUploads (uploadDisk\<lparr>remote := [''a.jpg'']\<rparr>)))
     = [SelectNextUpload, ReadFile ''/doc/attachments/a.jpg'', UploadFile ''a.jpg'', SqlUpdate ''a''] \<and>
   map state (table (uploadRecords (queueOf twoUploads uploadDisk))) = [SYNCED, SYNCED] \<and>
   calls (uploadRecords (queueOf twoUploads uploadDisk))
     = [SelectNextUpload, ReadFile ''/doc/attachments/a.jpg'', UploadFile ''a.jpg'', SqlUpdate ''a'',
        SelectNextUpload, ReadFile ''/doc/attachments/b.jpg'', UploadFile ''b.jpg'', SqlUpdate ''b'',
        SelectNextUpload]"
  by code_simp

subsection \<open>Download worker\<close>

lemma localUriOf_withLocalUri: "local_uri (withLocalUri s r) = Some (localUriOf s r)"
  by (cases "local_uri r") (auto simp: withLocalUri_def localUriOf_def orNull_def truthy_def)

lemma id_col_withLocalUri [simp]: "id_col (withLocalUri s r) = id_col r"
  by (simp add: withLocalUri_def)

lemma filename_withLocalUri [simp]: "filename (withLocalUri s r) = filename r"
  by (simp add: withLocalUri_def)

lemma tryDownload_Inl_table:
  "tryDownload u r s = (Inl e, s1) \<Longrightarrow> table s1 = table s"
  by (auto simp: tryDownload_def Let_def split: prod.splits sum.splits)

lemma tryDownload_frame:
  "options (snd (tryDownload u r s)) = options s \<and> platform (snd (tryDownload u r s)) = platform s \<and>
   downloading (snd (tryDownload u r s)) = downloading s \<and> uploading (snd (tryDownload u r s)) = uploading s"
  by (auto simp: tryDownload_def Let_def split: prod.splits sum.splits)

lemma downloadRecord_frame:
  "options (snd (downloadRecord r s)) = options s \<and> platform (snd (downloadRecord r s)) = platform s \<and>
   downloading (snd (downloadRecord r s)) = downloading s \<and> uploading (snd (downloadRecord r s)) = uploading s"
  using tryDownload_frame [of "localUriOf s r" "withLocalUri s r" "logCall (FileExists (localUriOf s r)) s"]
  by (auto simp: downloadRecord_def Let_def split: prod.splits sum.splits)

lemma downloadRecord_False_iff:
  "fst (downloadRecord r s) = False \<longleftrightarrow>
     (\<not> fileExists (storage (options s)) (localUriOf s r) (world s) \<and>
      (\<exists>e. fst (tryDownload (localUriOf s r) (withLocalUri s r)
                   (logCall (FileExists (localUriOf s r)) s)) = Inl e))"
  by (auto simp: downloadRecord_def Let_def split: prod.splits sum.splits)

lemma downloadRecord_False_table:
  "fst (downloadRecord r s) = False \<Longrightarrow> table (snd (downloadRecord r s)) = table s"
  by (auto simp: downloadRecord_def Let_def split: prod.splits sum.splits if_splits
           dest: tryDownload_Inl_table)

lemma existenceChecks_Nil [simp]: "existenceChecks [] = []"
  by (simp add: existenceChecks_def)

lemma existenceChecks_append [simp]:
  "existenceChecks (xs @ ys) = existenceChecks xs @ existenceChecks ys"
  by (simp add: existenceChecks_def)

lemma tryDownload_calls:
  "\<exists>new. calls (snd (tryDownload u r s)) = calls s @ new \<and> existenceChecks new = []"
  by (auto simp: tryDownload_def Let_def calls_update existenceChecks_def split: prod.splits sum.splits)

lemma downloadRecord_calls:
  "\<exists>new. calls (snd (downloadRecord r s)) = calls s @ new \<and> existenceChecks new = [localUriOf s r]"
proof (cases "fileExists (storage (options s)) (localUriOf s r) (world s)")
  case True
  then show ?thesis
    by (simp add: downloadRecord_def Let_def calls_update existenceChecks_def)
next
  case False
  obtain new where n: "calls (snd (tryDownload (localUriOf s r) (withLocalUri s r)
                   (logCall (FileExists (localUriOf s r)) s))) = calls (logCall (FileExists (localUriOf s r)) s) @ new"
      "existenceChecks new = []"
    using tryDownload_calls by blast
  have "calls (snd (downloadRecord r s)) = calls s @ (FileExists (localUriOf s r) # new)"
    using False n(1) by (auto simp: downloadRecord_def Let_def split: prod.splits sum.splits)
  moreover have "existenceChecks (FileExists (localUriOf s r) # new) = [localUriOf s r]"
    using n(2) by (simp add: existenceChecks_def)
  ultimately show ?thesis by blast
qed

lemma localUriOf_cong: "platform s' = platform s \<Longrightarrow> localUriOf s' r = localUriOf s r"
  by (simp add: localUriOf_def getLocalUri_def ATTACHMENT_STORAGE_PATH_def split: option.splits)

lemma downloadEach_calls:
  "\<exists>new. calls (downloadEach rs s) = calls s @ new \<and> existenceChecks new = map (localUriOf s) rs"
proof (induction rs arbitrary: s)
  case Nil
  then show ?case by simp
next
  case (Cons r rs)
  let ?s1 = "snd (downloadRecord r s)"
  obtain n1 where n1: "calls ?s1 = calls s @ n1" "existenceChecks n1 = [localUriOf s r]"
    using downloadRecord_calls by blast
  obtain n2 where n2: "calls (downloadEach rs ?s1) = calls ?s1 @ n2"
      "existenceChecks n2 = map (localUriOf ?s1) rs"
    using Cons.IH by blast
  have "map (localUriOf ?s1) rs = map (localUriOf s) rs"
    using localUriOf_cong [of ?s1 s] downloadRecord_frame [of r s] by simp
  with n1 n2 have "calls (downloadEach (r # rs) s) = calls s @ (n1 @ n2) \<and>
     existenceChecks (n1 @ n2) = map (localUriOf s) (r # rs)"
    by simp
  then show ?case by blast
qed

lemma downloadRecords_twoDownloads:
  "map state (table (downloadRecords (queueOf twoDownloads (testDisk\<lparr>remote := [''y.jpg'']\<rparr>))))
     = [QUEUED_DOWNLOAD, SYNCED] \<and>
   calls (downloadRecords (queueOf twoDownloads (testDisk\<lparr>remote := [''y.jpg'']\<rparr>)))
     = [SelectNextDownloads,
        FileExists ''/doc/attachments/x.jpg'', DownloadFile ''x.jpg'',
        FileExists ''/doc/attachments/y.jpg'', DownloadFile ''y.jpg'', ReadBlob,
        MakeDir ''/doc/attachments/'', WriteFile ''/doc/attachments/y.jpg'', SqlUpdate ''y'']"
  by code_simp

lemma updateRow_state:
  "\<forall>row \<in> set (map (updateRow ts r) tbl). id_col row = id_col r \<longrightarrow> state row = state r"
  by (auto simp: updateRow_def)

lemma id_col_updateRow [simp]: "id_col (updateRow ts r row) = id_col row"
  by (simp add: updateRow_def)

lemma downloadRecord_present:
  assumes "fileExists (storage (options s)) (localUriOf s r) (world s)"
  shows "downloadRecord r s =
           (True, update ((withLocalUri s r)\<lparr>state := SYNCED\<rparr>) (logCall (FileExists (localUriOf s r)) s))"
  using assms by (simp add: downloadRecord_def Let_def)

lemma withLocalUri_cong: "platform s' = platform s \<Longrightarrow> withLocalUri s' r = withLocalUri s r"
  by (simp add: withLocalUri_def getLocalUri_def ATTACHMENT_STORAGE_PATH_def)

lemma withLocalUri_idem: "withLocalUri s' (withLocalUri s r) = withLocalUri s r"
  by (cases "local_uri r") (auto simp: withLocalUri_def truthy_def getLocalUri_def)

lemma localUriOf_idem: "localUriOf s' (withLocalUri s r) = localUriOf s r"
  by (cases "local_uri r") (auto simp: withLocalUri_def localUriOf_def orNull_def truthy_def getLocalUri_def)

lemma downloadRecord_present_facts:
  assumes "fileExists (storage (options s)) (localUriOf s r) (world s)"
  shows "fst (downloadRecord r s) = True"
    and "calls (snd (downloadRecord r s)) = calls s @ [FileExists (localUriOf s r), SqlUpdate (id_col r)]"
    and "world (snd (downloadRecord r s)) = world s"
    and "options (snd (downloadRecord r s)) = options s"
    and "platform (snd (downloadRecord r s)) = platform s"
    and "map id_col (table (snd (downloadRecord r s))) = map id_col (table s)"
    and "\<forall>row \<in> set (table (snd (downloadRecord r s))). id_col row = id_col r \<longrightarrow> state row = SYNCED"
  using updateRow_state [where r = "(withLocalUri s r)\<lparr>state := SYNCED\<rparr>" and tbl = "table s"]
  by (simp_all add: downloadRecord_present [OF assms] calls_update table_update)

text \<open>
  C7. When the file exists at the record's path (the path derived from the
  filename when the record has none), \<^verbatim>\<open>downloadRecord\<close> returns \<^verbatim>\<open>true\<close>, the
  rows with the record's id are \<^verbatim>\<open>SYNCED\<close>, and its only calls are the existence
  check and the update. A second call, on the record as it was or as the first call
  left it, does the same: over both calls \<^verbatim>\<open>downloadFile\<close> is never called.
\<close>

theorem downloadRecord_local_file_idempotent:
  assumes "fileExists (storage (options s)) (localUriOf s r) (world s)"
    and "s1 = snd (downloadRecord r s)"
    and "r' = r \<or> r' = withLocalUri s r"
    and "s2 = snd (downloadRecord r' s1)"
  shows "fst (downloadRecord r s) = True \<and>
         calls s1 = calls s @ [FileExists (localUriOf s r), SqlUpdate (id_col r)] \<and>
         (\<forall>row \<in> set (table s1). id_col row = id_col r \<longrightarrow> state row = SYNCED) \<and>
         fst (downloadRecord r' s1) = True \<and>
         calls s2 = calls s1 @ [FileExists (localUriOf s r), SqlUpdate (id_col r)] \<and>
         (\<forall>row \<in> set (table s2). id_col row = id_col r \<longrightarrow> state row = SYNCED) \<and>
         map id_col (table s2) = map id_col (table s) \<and>
         (\<forall>f. DownloadFile f \<notin> set (drop (length (calls s)) (calls s2)))"
proof -
  note one = downloadRecord_present_facts [OF assms(1), folded assms(2)]
  have u: "localUriOf s1 r' = localUriOf s r"
    using assms(3) localUriOf_cong [OF one(5), of r] localUriOf_idem [of s1 s r] by auto
  have i: "id_col r' = id_col r"
    using assms(3) by auto
  have "fileExists (storage (options s1)) (localUriOf s1 r') (world s1)"
    using assms(1) by (simp add: one u)
  note two = downloadRecord_present_facts [OF this, folded assms(4), unfolded u i]
  have "calls s2 = calls s @ [FileExists (localUriOf s r), SqlUpdate (id_col r),
                              FileExists (localUriOf s r), SqlUpdate (id_col r)]"
    by (simp add: two(2) one(2))
  then have "\<forall>f. DownloadFile f \<notin> set (drop (length (calls s)) (calls s2))"
    by simp
  with one two show ?thesis
    by simp
qed

theorem downloadRecord_local_file_idempotent_witness:
  "fileExists (storage (options (queueOf [presentRecord] (testDisk\<lparr>files := [''/doc/attachments/p.jpg'']\<rparr>))))
     (localUriOf (queueOf [presentRecord] (testDisk\<lparr>files := [''/doc/attachments/p.jpg'']\<rparr>)) presentRecord)
     (world (queueOf [presentRecord] (testDisk\<lparr>files := [''/doc/attachments/p.jpg'']\<rparr>))) \<and>
   presentRecord \<in> set (table (queueOf [presentRecord] (testDisk\<lparr>files := [''/doc/attachments/p.jpg'']\<rparr>))) \<and>
   calls (snd (downloadRecord presentRecord (snd (downloadRecord presentRecord
       (queueOf [presentRecord] (testDisk\<lparr>files := [''/doc/attachments/p.jpg'']\<rparr>))))))
     = [FileExists ''/doc/attachments/p.jpg'', SqlUpdate ''p'',
        FileExists ''/doc/attachments/p.jpg'', SqlUpdate ''p''] \<and>
   map state (table (snd (downloadRecord presentRecord (snd (downloadRecord presentRecord
       (queueOf [presentRecord] (testDisk\<lparr>files := [''/doc/attachments/p.jpg'']\<rparr>)))))))
     = [SYNCED]"
proof -
  let ?q = "queueOf [presentRecord] (testDisk\<lparr>files := [''/doc/attachments/p.jpg'']\<rparr>)"
  have u: "localUriOf ?q presentRecord = ''/doc/attachments/p.jpg''"
    by code_simp
  have h: "fileExists (storage (options ?q)) (localUriOf ?q presentRecord) (world ?q)"
    unfolding u by (simp add: testStorage_def)
  have i: "id_col presentRecord = ''p''"
    by (simp add: presentRecord_def testRecord_def)
  have e: "map state (table (snd (downloadRecord presentRecord (snd (downloadRecord presentRecord ?q)))))
             = [SYNCED]"
    by code_simp
  from downloadRecord_local_file_idempotent [OF h refl _ refl, of presentRecord]
  have "calls (snd (downloadRecord presentRecord (snd (downloadRecord presentRecord ?q))))
          = calls (snd (downloadRecord presentRecord ?q)) @
              [FileExists (localUriOf ?q presentRecord), SqlUpdate (id_col presentRecord)]"
       "calls (snd (downloadRecord presentRecord ?q))
          = calls ?q @ [FileExists (localUriOf ?q presentRecord), SqlUpdate (id_col presentRecord)]"
    by simp_all
  then have "calls (snd (downloadRecord presentRecord (snd (downloadRecord presentRecord ?q))))
     = [FileExists ''/doc/attachments/p.jpg'', SqlUpdate ''p'',
        FileExists ''/doc/attachments/p.jpg'', SqlUpdate ''p'']"
    by (simp add: u i)
  with h e show ?thesis
    by simp
qed

lemma tryDownload_fetch_rejects:
  assumes "downloadFile (storage (options s)) (filename r) (world s) = (Inl e, w')"
  shows "tryDownload u r s = (Inl e, s\<lparr>calls := calls s @ [DownloadFile (filename r)], world := w'\<rparr>)"
  using assms by (simp add: tryDownload_def Let_def logCall_def)

lemma tryDownload_decode_rejects:
  assumes "downloadFile (storage (options s)) (filename r) (world s) = (Inr b, w1)"
    and "readAsBase64 (platform s) b w1 = (Inl e, w')"
  shows "tryDownload u r s =
           (Inl e, s\<lparr>calls := calls s @ [DownloadFile (filename r), ReadBlob], world := w'\<rparr>)"
  using assms by (simp add: tryDownload_def Let_def logCall_def)

lemma tryDownload_makeDir_rejects:
  assumes "downloadFile (storage (options s)) (filename r) (world s) = (Inr b, w1)"
    and "readAsBase64 (platform s) b w1 = (Inr d, w2)"
    and "makeDir (storage (options s)) (removeFirst (filename r) u) w2 = (Inl e, w')"
  shows "tryDownload u r s =
           (Inl e, s\<lparr>calls := calls s @ [DownloadFile (filename r), ReadBlob,
                                            MakeDir (removeFirst (filename r) u)], world := w'\<rparr>)"
  using assms by (simp add: tryDownload_def Let_def logCall_def)

lemma tryDownload_write_rejects:
  assumes "downloadFile (storage (options s)) (filename r) (world s) = (Inr b, w1)"
    and "readAsBase64 (platform s) b w1 = (Inr d, w2)"
    and "makeDir (storage (options s)) (removeFirst (filename r) u) w2 = (Inr x, w3)"
    and "writeFile (storage (options s)) u d w3 = (Inl e, w')"
  shows "tryDownload u r s =
           (Inl e, s\<lparr>calls := calls s @ [DownloadFile (filename r), ReadBlob,
                                            MakeDir (removeFirst (filename r) u), WriteFile u],
                       world := w'\<rparr>)"
  using assms by (simp add: tryDownload_def Let_def logCall_def)

lemma downloadRecord_rejected:
  assumes nofile: "\<not> fileExists (storage (options s)) (localUriOf s r) (world s)"
    and rej:
      "downloadFile (storage (options s)) (filename r) (world s) = (Inl e, w') \<or>
       (\<exists>b w1. downloadFile (storage (options s)) (filename r) (world s) = (Inr b, w1) \<and>
          (readAsBase64 (platform s) b w1 = (Inl e, w') \<or>
           (\<exists>d w2. readAsBase64 (platform s) b w1 = (Inr d, w2) \<and>
              (makeDir (storage (options s)) (removeFirst (filename r) (localUriOf s r)) w2 = (Inl e, w') \<or>
               (\<exists>x w3. makeDir (storage (options s)) (removeFirst (filename r) (localUriOf s r)) w2 = (Inr x, w3) \<and>
                  writeFile (storage (options s)) (localUriOf s r) d w3 = (Inl e, w'))))))"
  shows "\<exists>new \<in> rejectedCalls (localUriOf s r) (filename r).
           downloadRecord r s = (False, s\<lparr>calls := calls s @ new, world := w'\<rparr>)"
proof -
  let ?u = "localUriOf s r" and ?r = "withLocalUri s r"
  let ?s0 = "logCall (FileExists ?u) s"
  have d: "downloadRecord r s = (case tryDownload ?u ?r ?s0 of (Inr _, s1) \<Rightarrow> (True, s1)
                                                          | (Inl e, s1) \<Rightarrow> (False, s1))"
    using nofile by (simp add: downloadRecord_def Let_def)
  from rej consider
      (fetch) "downloadFile (storage (options ?s0)) (filename ?r) (world ?s0) = (Inl e, w')"
    | (decode) b w1 where "downloadFile (storage (options ?s0)) (filename ?r) (world ?s0) = (Inr b, w1)"
        "readAsBase64 (platform ?s0) b w1 = (Inl e, w')"
    | (mkdir) b w1 d w2 where "downloadFile (storage (options ?s0)) (filename ?r) (world ?s0) = (Inr b, w1)"
        "readAsBase64 (platform ?s0) b w1 = (Inr d, w2)"
        "makeDir (storage (options ?s0)) (removeFirst (filename ?r) ?u) w2 = (Inl e, w')"
    | (store) b w1 d w2 x w3 where "downloadFile (storage (options ?s0)) (filename ?r) (world ?s0) = (Inr b, w1)"
        "readAsBase64 (platform ?s0) b w1 = (Inr d, w2)"
        "makeDir (storage (options ?s0)) (removeFirst (filename ?r) ?u) w2 = (Inr x, w3)"
        "writeFile (storage (options ?s0)) ?u d w3 = (Inl e, w')"
    by auto
  then show ?thesis
  proof cases
    case fetch
    show ?thesis
      unfolding d tryDownload_fetch_rejects [OF fetch]
      by (simp add: rejectedCalls_def logCall_def)
  next
    case decode
    show ?thesis
      unfolding d tryDownload_decode_rejects [OF decode]
      by (simp add: rejectedCalls_def logCall_def)
  next
    case mkdir
    show ?thesis
      unfolding d tryDownload_makeDir_rejects [OF mkdir]
      by (simp add: rejectedCalls_def logCall_def)
  next
    case store
    show ?thesis
      unfolding d tryDownload_write_rejects [OF store]
      by (simp add: rejectedCalls_def logCall_def)
  qed
qed

lemma filter_updateRow_other:
  "(\<forall>row. P row \<longrightarrow> id_col row \<noteq> id_col r') \<Longrightarrow>
   filter P (map (updateRow ts r') tbl) = filter P tbl"
proof (induction tbl)
  case Nil
  then show ?case by simp
next
  case (Cons row tbl)
  have "id_col (updateRow ts r' row) = id_col row"
    by simp
  with Cons show ?case
    by (cases "id_col row = id_col r'") (auto simp: updateRow_def)
qed

lemma filter_table_update:
  "(\<forall>row. P row \<longrightarrow> id_col row \<noteq> id_col r') \<Longrightarrow>
   filter P (table (update r' s)) = filter P (table s)"
  by (simp add: table_update filter_updateRow_other)

lemma tryDownload_other_rows:
  assumes "\<forall>row. P row \<longrightarrow> id_col row \<noteq> id_col r"
  shows "filter P (table (snd (tryDownload u r s))) = filter P (table s)"
proof -
  have f: "filter P (table (update (r\<lparr>media_type := m, state := SYNCED\<rparr>) s')) = filter P (table s')" for m s'
    using assms by (intro filter_table_update) simp
  show ?thesis
    by (simp add: tryDownload_def Let_def f split: prod.splits sum.splits)
qed

lemma downloadRecord_other_rows:
  assumes "\<forall>row. P row \<longrightarrow> id_col row \<noteq> id_col r"
  shows "filter P (table (snd (downloadRecord r s))) = filter P (table s)"
proof (cases "fileExists (storage (options s)) (localUriOf s r) (world s)")
  case True
  have f: "filter P (table (update ((withLocalUri s r)\<lparr>state := SYNCED\<rparr>) s')) = filter P (table s')" for s'
    using assms by (intro filter_table_update) simp
  from True show ?thesis
    by (simp add: downloadRecord_def Let_def f)
next
  case False
  let ?t = "tryDownload (localUriOf s r) (withLocalUri s r) (logCall (FileExists (localUriOf s r)) s)"
  have "snd (downloadRecord r s) = snd ?t"
    using False by (simp add: downloadRecord_def Let_def split: prod.splits sum.splits)
  moreover have "filter P (table (snd ?t)) = filter P (table (logCall (FileExists (localUriOf s r)) s))"
    using assms by (intro tryDownload_other_rows) simp
  ultimately show ?thesis
    by simp
qed

lemma downloadEach_other_rows:
  "(\<forall>r2 \<in> set rs. \<forall>row. P row \<longrightarrow> id_col row \<noteq> id_col r2) \<Longrightarrow>
   filter P (table (downloadEach rs s)) = filter P (table s)"
proof (induction rs arbitrary: s)
  case Nil
  then show ?case by simp
next
  case (Cons r rs)
  have "filter P (table (snd (downloadRecord r s))) = filter P (table s)"
    using Cons.prems by (intro downloadRecord_other_rows) simp
  moreover have "filter P (table (downloadEach rs (snd (downloadRecord r s))))
                   = filter P (table (snd (downloadRecord r s)))"
    using Cons.prems by (intro Cons.IH) simp
  ultimately show ?case by simp
qed

text \<open>
  C6. Let the file of a record be absent locally, and let one of the statements
  inside \<^verbatim>\<open>try\<close> reject: the fetch (\<^verbatim>\<open>downloadFile\<close>), the decoding of the
  blob, the creation of the directory, or the write. Then \<^verbatim>\<open>downloadRecord\<close>
  returns \<^verbatim>\<open>false\<close> with the table as before (its calls are the existence check
  and the calls up to the rejecting one, no update among them), the loop goes on
  with the rest of the batch, one existence check for each remaining record, in
  order, and when no remaining record has the failed record's id its rows are the
  same at the end of the batch. A pass of \<^verbatim>\<open>downloadRecords\<close> makes one existence
  check for every download candidate, whatever fails on the way.
\<close>

theorem download_failure_is_isolated:
  assumes nofile: "\<not> fileExists (storage (options s)) (localUriOf s r) (world s)"
    and rej:
      "downloadFile (storage (options s)) (filename r) (world s) = (Inl e, w') \<or>
       (\<exists>b w1. downloadFile (storage (options s)) (filename r) (world s) = (Inr b, w1) \<and>
          (readAsBase64 (platform s) b w1 = (Inl e, w') \<or>
           (\<exists>d w2. readAsBase64 (platform s) b w1 = (Inr d, w2) \<and>
              (makeDir (storage (options s)) (removeFirst (filename r) (localUriOf s r)) w2 = (Inl e, w') \<or>
               (\<exists>x w3. makeDir (storage (options s)) (removeFirst (filename r) (localUriOf s r)) w2 = (Inr x, w3) \<and>
                  writeFile (storage (options s)) (localUriOf s r) d w3 = (Inl e, w'))))))"
  shows "fst (downloadRecord r s) = False \<and>
     table (snd (downloadRecord r s)) = table s \<and>
     world (snd (downloadRecord r s)) = w' \<and>
     (\<exists>new \<in> rejectedCalls (localUriOf s r) (filename r).
        calls (snd (downloadRecord r s)) = calls s @ new) \<and>
     (\<exists>new. calls (downloadEach (r # rs) s) = calls (snd (downloadRecord r s)) @ new \<and>
            existenceChecks new = map (localUriOf s) rs) \<and>
     (id_col r \<notin> id_col ` set rs \<longrightarrow>
        filter (\<lambda>row. id_col row = id_col r) (table (downloadEach (r # rs) s))
          = filter (\<lambda>row. id_col row = id_col r) (table s)) \<and>
     (\<not> downloading s \<longrightarrow>
        (\<exists>new. calls (downloadRecords s) = calls s @ SelectNextDownloads # new \<and>
               existenceChecks new = map (localUriOf s) (downloadCandidates (table s))))"
proof -
  let ?s1 = "snd (downloadRecord r s)"
  obtain new where n: "new \<in> rejectedCalls (localUriOf s r) (filename r)"
      "downloadRecord r s = (False, s\<lparr>calls := calls s @ new, world := w'\<rparr>)"
    using downloadRecord_rejected [OF nofile rej] by blast
  have c1: "fst (downloadRecord r s) = False"
    by (simp add: n(2))
  have c2: "table ?s1 = table s"
    by (simp add: n(2))
  have c3: "world ?s1 = w'"
    by (simp add: n(2))
  have c4: "\<exists>new \<in> rejectedCalls (localUriOf s r) (filename r). calls ?s1 = calls s @ new"
    using n by auto
  have u: "map (localUriOf ?s1) xs = map (localUriOf s) xs" for xs
    using localUriOf_cong [of ?s1 s] downloadRecord_frame [of r s] by simp
  have c5: "\<exists>new. calls (downloadEach (r # rs) s) = calls ?s1 @ new \<and>
            existenceChecks new = map (localUriOf s) rs"
    using downloadEach_calls [of rs ?s1] by (simp add: u)
  have c6: "id_col r \<notin> id_col ` set rs \<longrightarrow>
        filter (\<lambda>row. id_col row = id_col r) (table (downloadEach (r # rs) s))
          = filter (\<lambda>row. id_col row = id_col r) (table s)"
  proof
    assume "id_col r \<notin> id_col ` set rs"
    then have "\<forall>r2 \<in> set rs. \<forall>row. id_col row = id_col r \<longrightarrow> id_col row \<noteq> id_col r2"
      by auto
    from downloadEach_other_rows [OF this, of ?s1]
    show "filter (\<lambda>row. id_col row = id_col r) (table (downloadEach (r # rs) s))
          = filter (\<lambda>row. id_col row = id_col r) (table s)"
      by (simp add: c2)
  qed
  have c7: "\<not> downloading s \<longrightarrow>
        (\<exists>new. calls (downloadRecords s) = calls s @ SelectNextDownloads # new \<and>
               existenceChecks new = map (localUriOf s) (downloadCandidates (table s)))"
  proof
    assume d: "\<not> downloading s"
    let ?s0 = "logCall SelectNextDownloads (s\<lparr>downloading := True\<rparr>)"
    let ?rs = "downloadCandidates (table s)"
    obtain new where m: "calls (downloadEach ?rs ?s0) = calls ?s0 @ new"
       "existenceChecks new = map (localUriOf ?s0) ?rs"
      using downloadEach_calls by blast
    have v: "map (localUriOf ?s0) ?rs = map (localUriOf s) ?rs"
      using localUriOf_cong [of ?s0 s] by simp
    have "calls (downloadRecords s) = calls s @ SelectNextDownloads # new"
    proof (cases "?rs = []")
      case True
      with m(1) d show ?thesis
        by (simp add: downloadRecords_def getNextDownloadRecords_def)
    next
      case False
      with m(1) d show ?thesis
        by (simp add: downloadRecords_def getNextDownloadRecords_def)
    qed
    with m(2) v show "\<exists>new. calls (downloadRecords s) = calls s @ SelectNextDownloads # new \<and>
               existenceChecks new = map (localUriOf s) (downloadCandidates (table s))"
      by auto
  qed
  show ?thesis
    by (rule conjI c1 c2 c3 c4 c5 c6 c7)+
qed

theorem download_failure_is_isolated_witness:
  "\<not> fileExists (storage (options (queueOf twoDownloads (testDisk\<lparr>remote := [''y.jpg'']\<rparr>))))
       ''/doc/attachments/x.jpg'' (testDisk\<lparr>remote := [''y.jpg'']\<rparr>) \<and>
   downloadFile (storage (options (queueOf twoDownloads (testDisk\<lparr>remote := [''y.jpg'']\<rparr>))))
       ''x.jpg'' (testDisk\<lparr>remote := [''y.jpg'']\<rparr>)
     = (Inl (Thrown None), testDisk\<lparr>remote := [''y.jpg'']\<rparr>) \<and>
   fst (downloadRecord ((testRecord ''x'' QUEUED_DOWNLOAD 1)\<lparr>local_uri := None\<rparr>)
         (queueOf twoDownloads (testDisk\<lparr>remote := [''y.jpg'']\<rparr>))) = False \<and>
   table (snd (downloadRecord ((testRecord ''x'' QUEUED_DOWNLOAD 1)\<lparr>local_uri := None\<rparr>)
         (queueOf twoDownloads (testDisk\<lparr>remote := [''y.jpg'']\<rparr>)))) = twoDownloads \<and>
   filter (\<lambda>row. id_col row = ''x'')
       (table (downloadEach twoDownloads (queueOf twoDownloads (testDisk\<lparr>remote := [''y.jpg'']\<rparr>))))
     = [(testRecord ''x'' QUEUED_DOWNLOAD 1)\<lparr>local_uri := None\<rparr>] \<and>
   map state (table (downloadRecords (queueOf twoDownloads (testDisk\<lparr>remote := [''y.jpg'']\<rparr>))))
     = [QUEUED_DOWNLOAD, SYNCED]"
proof -
  let ?x = "(testRecord ''x'' QUEUED_DOWNLOAD 1)\<lparr>local_uri := None\<rparr>"
  let ?y = "testRecord ''y'' QUEUED_DOWNLOAD 2"
  let ?w = "testDisk\<lparr>remote := [''y.jpg'']\<rparr>"
  let ?q = "queueOf twoDownloads ?w"
  have u: "localUriOf ?q ?x = ''/doc/attachments/x.jpg''"
    by code_simp
  have f: "filename ?x = ''x.jpg''" and i: "id_col ?x = ''x''" and j: "id_col ?x \<notin> id_col ` set [?y]"
    by (simp_all add: testRecord_def)
  have h1: "\<not> fileExists (storage (options ?q)) (localUriOf ?q ?x) (world ?q)"
    unfolding u by (simp add: testStorage_def testDisk_def)
  have h2: "downloadFile (storage (options ?q)) (filename ?x) (world ?q) = (Inl (Thrown None), ?w)"
    unfolding f by (simp add: testStorage_def testDisk_def)
  note T = download_failure_is_isolated [OF h1 disjI1, OF h2, of "[?y]"]
  from T have a: "fst (downloadRecord ?x ?q) = False" "table (snd (downloadRecord ?x ?q)) = table ?q"
    by blast+
  from T j have "filter (\<lambda>row. id_col row = id_col ?x) (table (downloadEach (?x # [?y]) ?q))
          = filter (\<lambda>row. id_col row = id_col ?x) (table ?q)"
    by blast
  then have b: "filter (\<lambda>row. id_col row = ''x'') (table (downloadEach twoDownloads ?q)) = [?x]"
    unfolding i by (simp add: twoDownloads_def testRecord_def)
  from h1 h2 a b downloadRecords_twoDownloads show ?thesis
    unfolding u f by simp
qed

subsection \<open>Initialisation and reconciliation\<close>

lemma markForSync_quoteFree:
  "list_all quoteFree ids \<Longrightarrow>
   \<exists>s'. markForSync ids s = Some s' \<and>
        table s' = map (\<lambda>row. if id_col row \<in> set ids then row\<lparr>state := QUEUED_SYNC\<rparr> else row) (table s) \<and>
        world s' = world s \<and> options s' = options s \<and> platform s' = platform s"
  by (cases ids) (simp_all add: markForSync_def)

lemma table_startWatchers [simp]: "table (startWatchers s) = table s"
  by (simp add: startWatchers_def)

lemma calls_startWatchers:
  "calls (startWatchers s) = calls s @ [WatchUploads, WatchDownloads, SetInterval 60000]"
  by (simp add: startWatchers_def ATTACHMENT_QUEUE_INTERVAL_def)

lemma init_reconciles:
  assumes "list_all quoteFree ids"
    and "makeDir (storage (options s)) (ATTACHMENT_STORAGE_PATH s) (world s) = (Inr x, w1)"
    and "getAttachmentIds (options s) = Some hook"
    and "hook w1 = (Inr ids, w2)"
  shows "\<exists>s'. init s = Some (Inr (), s') \<and>
          table s' = map (\<lambda>row. if id_col row \<in> set ids then row\<lparr>state := QUEUED_SYNC\<rparr> else row) (table s)"
proof (cases "ids = []")
  case True
  with assms(2-4) show ?thesis
    by (simp add: init_def Let_def)
next
  case False
  let ?s1 = "(logCall GetAttachmentIds ((logCall (MakeDir (ATTACHMENT_STORAGE_PATH s)) s)\<lparr>world := w1\<rparr>))\<lparr>world := w2\<rparr>"
  obtain s2 where m: "markForSync ids ?s1 = Some s2"
     "table s2 = map (\<lambda>row. if id_col row \<in> set ids then row\<lparr>state := QUEUED_SYNC\<rparr> else row) (table ?s1)"
    using markForSync_quoteFree [OF assms(1), of ?s1] by blast
  have "init s = Some (Inr (), startWatchers s2)"
    using False assms(2-4) m(1) by (simp add: init_def Let_def)
  with m(2) show ?thesis
    by simp
qed

lemma ids_markRows:
  "map id_col (map (\<lambda>row. if id_col row \<in> A then row\<lparr>state := QUEUED_SYNC\<rparr> else row) tbl)
     = map id_col tbl"
  by (induction tbl) auto

text \<open>
  C1, as amended. For an id list free of quote characters, reconciliation
  (\<^verbatim>\<open>markForSync\<close>, and \<^verbatim>\<open>init\<close> applying it to the result of
  \<^verbatim>\<open>getAttachmentIds\<close>) sets the state of every row whose id is listed to
  \<^verbatim>\<open>QUEUED_SYNC\<close> and changes nothing else: the table holds the same ids, in the
  same order, as before, so a listed id that has no row before has none after.
\<close>

theorem markForSync_updates_present_only:
  assumes "list_all quoteFree ids"
  shows "(\<exists>s'. markForSync ids s = Some s' \<and>
            map id_col (table s') = map id_col (table s) \<and>
            (\<forall>row \<in> set (table s'). id_col row \<in> set ids \<longrightarrow> state row = QUEUED_SYNC) \<and>
            (\<forall>i \<in> set ids. i \<notin> set (map id_col (table s)) \<longrightarrow> i \<notin> set (map id_col (table s'))) \<and>
            table s' = map (\<lambda>row. if id_col row \<in> set ids then row\<lparr>state := QUEUED_SYNC\<rparr> else row) (table s)) \<and>
         (\<forall>x w1 hook w2.
            makeDir (storage (options s)) (ATTACHMENT_STORAGE_PATH s) (world s) = (Inr x, w1) \<and>
            getAttachmentIds (options s) = Some hook \<and> hook w1 = (Inr ids, w2) \<longrightarrow>
            (\<exists>s'. init s = Some (Inr (), s') \<and>
               table s' = map (\<lambda>row. if id_col row \<in> set ids then row\<lparr>state := QUEUED_SYNC\<rparr> else row) (table s)))"
proof (intro conjI allI impI)
  obtain s' where m: "markForSync ids s = Some s'"
    "table s' = map (\<lambda>row. if id_col row \<in> set ids then row\<lparr>state := QUEUED_SYNC\<rparr> else row) (table s)"
    using markForSync_quoteFree [OF assms, of s] by blast
  have ids: "map id_col (table s') = map id_col (table s)"
    by (simp add: m(2) ids_markRows)
  have st: "\<forall>row \<in> set (table s'). id_col row \<in> set ids \<longrightarrow> state row = QUEUED_SYNC"
    by (auto simp: m(2))
  have ab: "\<forall>i \<in> set ids. i \<notin> set (map id_col (table s)) \<longrightarrow> i \<notin> set (map id_col (table s'))"
    unfolding ids by simp
  show "\<exists>s'. markForSync ids s = Some s' \<and>
            map id_col (table s') = map id_col (table s) \<and>
            (\<forall>row \<in> set (table s'). id_col row \<in> set ids \<longrightarrow> state row = QUEUED_SYNC) \<and>
            (\<forall>i \<in> set ids. i \<notin> set (map id_col (table s)) \<longrightarrow> i \<notin> set (map id_col (table s'))) \<and>
            table s' = map (\<lambda>row. if id_col row \<in> set ids then row\<lparr>state := QUEUED_SYNC\<rparr> else row) (table s)"
    using m(1) ids st ab m(2) by blast
next
  fix x w1 hook w2
  assume "makeDir (storage (options s)) (ATTACHMENT_STORAGE_PATH s) (world s) = (Inr x, w1) \<and>
            getAttachmentIds (options s) = Some hook \<and> hook w1 = (Inr ids, w2)"
  then show "\<exists>s'. init s = Some (Inr (), s') \<and>
               table s' = map (\<lambda>row. if id_col row \<in> set ids then row\<lparr>state := QUEUED_SYNC\<rparr> else row) (table s)"
    using init_reconciles [OF assms, of s x w1 hook w2] by blast
qed

theorem markForSync_updates_present_only_witness:
  "list_all quoteFree [''x'', ''y''] \<and>
   getAttachmentIds (options reconcileQueue) = Some (\<lambda>w. (Inr [''x'', ''y''], w)) \<and>
   makeDir (storage (options reconcileQueue)) (ATTACHMENT_STORAGE_PATH reconcileQueue) (world reconcileQueue)
     = (Inr (), testDisk) \<and>
   map id_col (table reconcileQueue) = [''x''] \<and>
   map_option (table \<circ> snd) (init reconcileQueue) = Some [testRecord ''x'' QUEUED_SYNC 1]"
proof -
  have h1: "list_all quoteFree [''x'', ''y'']"
    by (simp add: quoteFree_def)
  have h2: "getAttachmentIds (options reconcileQueue) = Some (\<lambda>w. (Inr [''x'', ''y''], w))"
    by (simp add: reconcileQueue_def constructor_def reconcileOptions_def)
  have h3: "makeDir (storage (options reconcileQueue)) (ATTACHMENT_STORAGE_PATH reconcileQueue)
              (world reconcileQueue) = (Inr (), testDisk)"
    by (simp add: reconcileQueue_def constructor_def reconcileOptions_def testOptions_def testStorage_def)
  have t: "table reconcileQueue = [testRecord ''x'' QUEUED_UPLOAD 1]"
    by (simp add: reconcileQueue_def constructor_def)
  from markForSync_updates_present_only [OF h1, of reconcileQueue] h2 h3
  have "\<exists>s'. init reconcileQueue = Some (Inr (), s') \<and>
          table s' = map (\<lambda>row. if id_col row \<in> set [''x'', ''y''] then row\<lparr>state := QUEUED_SYNC\<rparr> else row)
                       (table reconcileQueue)"
    by blast
  then have "map_option (table \<circ> snd) (init reconcileQueue) = Some [testRecord ''x'' QUEUED_SYNC 1]"
    by (auto simp: t testRecord_def)
  with h1 h2 h3 t show ?thesis
    by (simp add: testRecord_def)
qed

text \<open>
  C1 as stated fails for the lists \<open>x, y\<close> on a table that holds \<open>x\<close> only: the
  statement is an \<^verbatim>\<open>UPDATE\<close>, and no row is inserted for \<open>y\<close>.
\<close>

theorem markForSync_inserts_counterexample:
  "map_option table (markForSync [''x'', ''y''] (queueOf [testRecord ''x'' QUEUED_UPLOAD 1] testDisk))
     = Some [testRecord ''x'' QUEUED_SYNC 1] \<and>
   map_option (table \<circ> snd) (init reconcileQueue) = Some [testRecord ''x'' QUEUED_SYNC 1] \<and>
   ''y'' \<notin> set (map id_col [testRecord ''x'' QUEUED_SYNC 1])"
  by code_simp

text \<open>
  C3, evaluated on the code. The constructor stores the supplied \<^verbatim>\<open>syncInterval\<close>
  (5000, or 0), and \<^verbatim>\<open>init\<close> registers the timer with
  \<^verbatim>\<open>ATTACHMENT_QUEUE_INTERVAL\<close>, 60000, whatever the option holds.
\<close>

theorem init_timer_ignores_syncInterval:
  "syncInterval (options (constructor (testOptions\<lparr>syncInterval := Some 5000\<rparr>) testPlatform [] testDisk))
     = Some 5000 \<and>
   map_option (calls \<circ> snd)
     (init (constructor (testOptions\<lparr>syncInterval := Some 5000\<rparr>) testPlatform [] testDisk))
     = Some [MakeDir ''/doc/attachments'', WatchUploads, WatchDownloads, SetInterval 60000] \<and>
   syncInterval (options (constructor (testOptions\<lparr>syncInterval := Some 0\<rparr>) testPlatform [] testDisk))
     = Some 0 \<and>
   map_option (calls \<circ> snd)
     (init (constructor (testOptions\<lparr>syncInterval := Some 0\<rparr>) testPlatform [] testDisk))
     = Some [MakeDir ''/doc/attachments'', WatchUploads, WatchDownloads, SetInterval 60000]"
  by code_simp

lemma init_timer_interval:
  "init s = Some (Inr x, s') \<Longrightarrow> \<exists>cs. calls s' = cs @ [SetInterval 60000]"
  by (auto simp: init_def Let_def calls_startWatchers split: prod.splits sum.splits option.splits if_splits)

subsection \<open>Cache eviction\<close>

lemma localUriOf_delete [simp]: "localUriOf (delete r s) = localUriOf s"
  by (rule ext) (simp add: delete_def Let_def localUriOf_def getLocalUri_def ATTACHMENT_STORAGE_PATH_def
        split: option.splits)

lemma localUriOf_logCall [simp]: "localUriOf (logCall c s) = localUriOf s"
  by (rule ext) (rule localUriOf_cong, simp)

lemma options_delete [simp]: "options (delete r s) = options s"
  by (simp add: delete_def Let_def)

lemma table_delete: "table (delete r s) = filter (\<lambda>row. id_col row \<noteq> id_col r) (table s)"
  by (simp add: delete_def Let_def)

lemma calls_delete:
  "calls (delete r s) = calls s @ [SqlDelete (id_col r), DeleteFile (filename r) (localUriOf s r)]"
  by (simp add: delete_def Let_def)

lemma world_delete:
  "world (delete r s) = deleteFile (storage (options s)) (filename r) (localUriOf s r) (world s)"
  by (simp add: delete_def Let_def)

lemma table_fold_delete:
  "table (fold delete res s) = filter (\<lambda>row. id_col row \<notin> id_col ` set res) (table s)"
proof (induction res arbitrary: s)
  case Nil
  then show ?case by simp
next
  case (Cons r res)
  have "filter (\<lambda>row. id_col row \<notin> id_col ` set res) (filter (\<lambda>row. id_col row \<noteq> id_col r) (table s))
        = filter (\<lambda>row. id_col row \<notin> id_col ` set (r # res)) (table s)"
    by (auto intro: filter_cong)
  with Cons.IH [of "delete r s"] show ?case
    by (simp add: table_delete)
qed

lemma calls_fold_delete:
  "calls (fold delete res s) =
     calls s @ concat (map (\<lambda>r. [SqlDelete (id_col r), DeleteFile (filename r) (localUriOf s r)]) res)"
  by (induction res arbitrary: s) (simp_all add: calls_delete)

lemma world_fold_delete:
  "world (fold delete res s) =
     fold (\<lambda>r. deleteFile (storage (options s)) (filename r) (localUriOf s r)) res (world s)"
  by (induction res arbitrary: s) (simp_all add: world_delete)

lemma expireCache_result:
  "cacheLimit (options s) = Some lim \<Longrightarrow>
   expireCache s = (Inr (), fold delete (selectExpired lim (table s)) (logCall SelectExpired s))"
  by (simp add: expireCache_def Let_def)

lemma set_syncedByRecency: "set (syncedByRecency tbl) = {row \<in> set tbl. state row = SYNCED}"
  by (auto simp: syncedByRecency_def)

lemma length_syncedByRecency:
  "length (syncedByRecency tbl) = length (filter (\<lambda>row. state row = SYNCED) tbl)"
  by (simp add: syncedByRecency_def)

lemma distinct_syncedByRecency: "distinct tbl \<Longrightarrow> distinct (syncedByRecency tbl)"
  by (simp add: syncedByRecency_def)

lemma sorted_syncedByRecency: "sorted (map (\<lambda>row. - timestamp row) (syncedByRecency tbl))"
  by (simp add: syncedByRecency_def)

lemma set_selectExpired: "set (selectExpired lim tbl) \<subseteq> set (drop (nat lim) (syncedByRecency tbl))"
  by (simp add: selectExpired_def set_take_subset)

lemma selectExpired_subset: "set (selectExpired lim tbl) \<subseteq> {row \<in> set tbl. state row = SYNCED}"
  using set_selectExpired [of lim tbl] set_drop_subset [of "nat lim" "syncedByRecency tbl"]
  by (auto simp: set_syncedByRecency)

lemma length_selectExpired:
  "length (selectExpired lim tbl) = min 100 (length (syncedByRecency tbl) - nat lim)"
  by (simp add: selectExpired_def min.commute)

lemma distinct_selectExpired: "distinct tbl \<Longrightarrow> distinct (selectExpired lim tbl)"
  by (simp add: selectExpired_def distinct_syncedByRecency)

lemma take_drop_disjoint:
  "distinct xs \<Longrightarrow> set (take n xs) \<inter> set (drop n xs) = {}"
  using distinct_append [of "take n xs" "drop n xs"] by simp

lemma sorted_take_le_drop:
  assumes "sorted (map f xs)" "a \<in> set (take n xs)" "b \<in> set (drop n xs)"
  shows "f a \<le> f b"
proof -
  have "sorted (map f (take n xs) @ map f (drop n xs))"
    using assms(1) by (simp flip: map_append)
  with assms(2,3) show ?thesis
    by (auto simp: sorted_append)
qed

lemma length_filter_not_in:
  assumes "distinct xs" "distinct res" "set res \<subseteq> set xs"
  shows "length (filter (\<lambda>x. x \<notin> set res) xs) = length xs - length res"
proof -
  have "length (filter (\<lambda>x. x \<notin> set res) xs) = card (set xs - set res)"
    using assms(1) by (simp add: distinct_length_filter Diff_eq Int_commute Collect_neg_eq)
  also have "\<dots> = card (set xs) - card (set res)"
    using assms(3) by (simp add: card_Diff_subset)
  finally show ?thesis
    using assms(1,2) by (simp add: distinct_card)
qed

lemma filter_by_id:
  assumes "distinct (map id_col tbl)" "set res \<subseteq> set tbl"
  shows "filter (\<lambda>row. id_col row \<notin> id_col ` set res) tbl = filter (\<lambda>row. row \<notin> set res) tbl"
proof (rule filter_cong [OF refl])
  fix row assume r: "row \<in> set tbl"
  have "inj_on id_col (set tbl)"
    using assms(1) by (simp add: distinct_map)
  with r assms(2) show "(id_col row \<notin> id_col ` set res) = (row \<notin> set res)"
    by (auto simp: inj_on_def)
qed

lemma table_expireCache:
  assumes "cacheLimit (options s) = Some lim" "distinct (map id_col (table s))"
  shows "table (snd (expireCache s)) = filter (\<lambda>row. row \<notin> set (selectExpired lim (table s))) (table s)"
  using filter_by_id [OF assms(2), of "selectExpired lim (table s)"] selectExpired_subset [of lim "table s"]
  by (auto simp: expireCache_result [OF assms(1)] table_fold_delete)

lemma length_table_expireCache:
  assumes "cacheLimit (options s) = Some lim" "distinct (map id_col (table s))"
  shows "length (table (snd (expireCache s))) = length (table s) - length (selectExpired lim (table s))"
proof -
  have d: "distinct (table s)"
    using assms(2) by (simp add: distinct_map)
  show ?thesis
    unfolding table_expireCache [OF assms]
    using selectExpired_subset [of lim "table s"]
    by (intro length_filter_not_in d distinct_selectExpired) auto
qed

lemma synced_after_expireCache:
  assumes "cacheLimit (options s) = Some lim" "distinct (map id_col (table s))"
  shows "length (syncedByRecency (table (snd (expireCache s)))) =
           length (syncedByRecency (table s)) - length (selectExpired lim (table s))"
proof -
  let ?P = "\<lambda>row. state row = SYNCED"
  have d: "distinct (filter ?P (table s))"
    using assms(2) by (simp add: distinct_map)
  have "filter ?P (table (snd (expireCache s))) =
        filter (\<lambda>row. row \<notin> set (selectExpired lim (table s))) (filter ?P (table s))"
    unfolding table_expireCache [OF assms] by (auto intro: filter_cong)
  moreover have "length (filter (\<lambda>row. row \<notin> set (selectExpired lim (table s))) (filter ?P (table s)))
        = length (filter ?P (table s)) - length (selectExpired lim (table s))"
    using selectExpired_subset [of lim "table s"] d assms(2)
    by (intro length_filter_not_in distinct_selectExpired) (auto simp: distinct_map)
  ultimately show ?thesis
    by (simp add: length_syncedByRecency)
qed

lemma length_syncedRows [simp]: "length (syncedRows n) = n"
  by (simp add: syncedRows_def)

lemma distinct_ids_syncedRows: "distinct (map id_col (syncedRows n))"
proof -
  have "map id_col (syncedRows n) = map rowId [0..<n]"
    by (simp add: syncedRows_def testRecord_def comp_def)
  moreover have "inj_on rowId (set [0..<n])"
    by (rule inj_onI) (auto simp: rowId_def dest: arg_cong [where f = length])
  ultimately show ?thesis
    by (simp add: distinct_map)
qed

lemma synced_syncedRows [simp]: "length (syncedByRecency (syncedRows n)) = n"
  by (simp add: length_syncedByRecency syncedRows_def testRecord_def filter_map comp_def)

lemma manySynced_simps:
  "cacheLimit (options manySynced) = Some 0" "table manySynced = syncedRows 101"
  by (simp_all add: manySynced_def constructor_def)

lemma cacheLimit_queueOf: "cacheLimit (options (queueOf tbl w)) = Some 100"
  by simp

lemma filter_not_in_drop:
  assumes "distinct xs"
  shows "filter (\<lambda>x. x \<notin> set (drop n xs)) xs = take n xs"
proof -
  let ?P = "\<lambda>x. x \<notin> set (drop n xs)"
  have a: "filter ?P (take n xs) = take n xs"
    using take_drop_disjoint [OF assms, of n] by (auto simp: filter_id_conv)
  have b: "filter ?P (drop n xs) = []"
    by (simp add: filter_empty_conv)
  have "filter ?P xs = filter ?P (take n xs) @ filter ?P (drop n xs)"
    using filter_append [of ?P "take n xs" "drop n xs"] by simp
  with a b show ?thesis by simp
qed

lemma syncedByRecency_filter:
  "syncedByRecency (filter P tbl) = filter P (syncedByRecency tbl)"
proof -
  have "filter (\<lambda>row. state row = SYNCED) (filter P tbl) = filter P (filter (\<lambda>row. state row = SYNCED) tbl)"
    by (induction tbl) auto
  then show ?thesis
    by (simp only: syncedByRecency_def filter_sort)
qed

lemma kept_after_expireCache:
  assumes "cacheLimit (options s) = Some lim" "distinct (map id_col (table s))"
  shows "set (take (nat lim) (syncedByRecency (table s))) \<subseteq> set (table (snd (expireCache s)))"
proof
  fix row assume r: "row \<in> set (take (nat lim) (syncedByRecency (table s)))"
  have d: "distinct (syncedByRecency (table s))"
    using assms(2) by (simp add: distinct_syncedByRecency distinct_map)
  from r have "row \<notin> set (drop (nat lim) (syncedByRecency (table s)))"
    using take_drop_disjoint [OF d, of "nat lim"] by auto
  then have "row \<notin> set (selectExpired lim (table s))"
    using set_selectExpired [of lim "table s"] by auto
  moreover have "row \<in> set (table s)"
    using r set_take_subset [of "nat lim" "syncedByRecency (table s)"]
    by (auto simp: set_syncedByRecency)
  ultimately show "row \<in> set (table (snd (expireCache s)))"
    by (simp add: table_expireCache [OF assms])
qed

lemma expired_older_than_kept:
  assumes "d \<in> set (selectExpired lim tbl)" "k \<in> set (take (nat lim) (syncedByRecency tbl))"
  shows "timestamp d \<le> timestamp k"
proof -
  have "d \<in> set (drop (nat lim) (syncedByRecency tbl))"
    using assms(1) set_selectExpired by blast
  from sorted_take_le_drop [OF sorted_syncedByRecency assms(2) this] show ?thesis
    by simp
qed

lemma selectExpired_all:
  "length (syncedByRecency tbl) \<le> nat lim + 100 \<Longrightarrow>
   selectExpired lim tbl = drop (nat lim) (syncedByRecency tbl)"
  by (simp add: selectExpired_def)

lemma synced_after_all_expired:
  assumes "cacheLimit (options s) = Some lim" "distinct (map id_col (table s))"
    and "length (syncedByRecency (table s)) \<le> nat lim + 100"
  shows "syncedByRecency (table (snd (expireCache s))) = take (nat lim) (syncedByRecency (table s))"
proof -
  have d: "distinct (syncedByRecency (table s))"
    using assms(2) by (simp add: distinct_syncedByRecency distinct_map)
  show ?thesis
    by (simp add: table_expireCache [OF assms(1,2)] syncedByRecency_filter
          selectExpired_all [OF assms(3)] filter_not_in_drop [OF d])
qed

text \<open>
  C2, as amended. On a table with distinct ids, \<^verbatim>\<open>expireCache\<close> deletes, row and
  file, the \<^verbatim>\<open>SYNCED\<close> records that the selection returns: those after the
  \<^verbatim>\<open>cacheLimit\<close> most recently touched, and at most 100 of them. The
  \<^verbatim>\<open>cacheLimit\<close> most recent stay, and none of the deleted records is newer than
  any of them. When there are at most \<^verbatim>\<open>cacheLimit\<close> + 100 synced records, the
  deleted ones are all the synced records beyond the limit and exactly the
  \<^verbatim>\<open>cacheLimit\<close> most recent remain; with 150 synced records and a limit of 100,
  50 are deleted and 100 remain.
\<close>

theorem expireCache_evicts_beyond_limit:
  assumes "cacheLimit (options s) = Some lim" and "distinct (map id_col (table s))"
  shows "fst (expireCache s) = Inr () \<and>
     selectExpired lim (table s) = take 100 (drop (nat lim) (syncedByRecency (table s))) \<and>
     table (snd (expireCache s)) = filter (\<lambda>row. row \<notin> set (selectExpired lim (table s))) (table s) \<and>
     world (snd (expireCache s)) =
       fold (\<lambda>r. deleteFile (storage (options s)) (filename r) (localUriOf s r))
         (selectExpired lim (table s)) (world s) \<and>
     calls (snd (expireCache s)) =
       calls s @ SelectExpired #
         concat (map (\<lambda>r. [SqlDelete (id_col r), DeleteFile (filename r) (localUriOf s r)])
                   (selectExpired lim (table s))) \<and>
     set (take (nat lim) (syncedByRecency (table s))) \<subseteq> set (table (snd (expireCache s))) \<and>
     (\<forall>d \<in> set (selectExpired lim (table s)). \<forall>k \<in> set (take (nat lim) (syncedByRecency (table s))).
        timestamp d \<le> timestamp k) \<and>
     (length (syncedByRecency (table s)) \<le> nat lim + 100 \<longrightarrow>
        selectExpired lim (table s) = drop (nat lim) (syncedByRecency (table s)) \<and>
        syncedByRecency (table (snd (expireCache s))) = take (nat lim) (syncedByRecency (table s))) \<and>
     (lim = 100 \<and> length (syncedByRecency (table s)) = 150 \<longrightarrow>
        length (selectExpired lim (table s)) = 50 \<and>
        length (table (snd (expireCache s))) = length (table s) - 50 \<and>
        length (syncedByRecency (table (snd (expireCache s)))) = 100)"
proof -
  note r = expireCache_result [OF assms(1)]
  have c1: "fst (expireCache s) = Inr ()"
    by (simp add: r)
  have c2: "selectExpired lim (table s) = take 100 (drop (nat lim) (syncedByRecency (table s)))"
    by (simp add: selectExpired_def)
  have c3: "table (snd (expireCache s)) =
              filter (\<lambda>row. row \<notin> set (selectExpired lim (table s))) (table s)"
    by (rule table_expireCache [OF assms])
  have c4: "world (snd (expireCache s)) =
       fold (\<lambda>r. deleteFile (storage (options s)) (filename r) (localUriOf s r))
         (selectExpired lim (table s)) (world s)"
    by (simp add: r world_fold_delete)
  have c5: "calls (snd (expireCache s)) =
       calls s @ SelectExpired #
         concat (map (\<lambda>r. [SqlDelete (id_col r), DeleteFile (filename r) (localUriOf s r)])
                   (selectExpired lim (table s)))"
    by (simp add: r calls_fold_delete)
  have c6: "set (take (nat lim) (syncedByRecency (table s))) \<subseteq> set (table (snd (expireCache s)))"
    by (rule kept_after_expireCache [OF assms])
  have c7: "\<forall>d \<in> set (selectExpired lim (table s)). \<forall>k \<in> set (take (nat lim) (syncedByRecency (table s))).
        timestamp d \<le> timestamp k"
    using expired_older_than_kept by blast
  have c8: "length (syncedByRecency (table s)) \<le> nat lim + 100 \<longrightarrow>
        selectExpired lim (table s) = drop (nat lim) (syncedByRecency (table s)) \<and>
        syncedByRecency (table (snd (expireCache s))) = take (nat lim) (syncedByRecency (table s))"
  proof (intro impI conjI)
    assume l: "length (syncedByRecency (table s)) \<le> nat lim + 100"
    show "selectExpired lim (table s) = drop (nat lim) (syncedByRecency (table s))"
      by (rule selectExpired_all [OF l])
    show "syncedByRecency (table (snd (expireCache s))) = take (nat lim) (syncedByRecency (table s))"
      by (rule synced_after_all_expired [OF assms l])
  qed
  have c9: "lim = 100 \<and> length (syncedByRecency (table s)) = 150 \<longrightarrow>
        length (selectExpired lim (table s)) = 50 \<and>
        length (table (snd (expireCache s))) = length (table s) - 50 \<and>
        length (syncedByRecency (table (snd (expireCache s)))) = 100"
    using length_table_expireCache [OF assms] synced_after_expireCache [OF assms]
    by (simp add: length_selectExpired)
  show ?thesis
    by (rule conjI c1 c2 c3 c4 c5 c6 c7 c8 c9)+
qed

text \<open>
  C10. The selection of \<^verbatim>\<open>expireCache\<close> has at most 100 rows, so on a table
  with distinct ids one invocation removes at most 100 rows. With more than
  \<^verbatim>\<open>cacheLimit\<close> + 100 synced records it removes exactly 100, and the synced
  records from rank \<^verbatim>\<open>cacheLimit\<close> + 101 on, of which there is at least one, are
  still in the table: more than \<^verbatim>\<open>cacheLimit\<close> synced records remain.
\<close>

theorem expireCache_at_most_100:
  assumes "cacheLimit (options s) = Some lim"
  shows "length (selectExpired lim (table s)) \<le> 100 \<and>
     (distinct (map id_col (table s)) \<longrightarrow>
        length (table s) - length (table (snd (expireCache s))) \<le> 100 \<and>
        (nat lim + 100 < length (syncedByRecency (table s)) \<longrightarrow>
           length (selectExpired lim (table s)) = 100 \<and>
           length (syncedByRecency (table (snd (expireCache s)))) = length (syncedByRecency (table s)) - 100 \<and>
           nat lim < length (syncedByRecency (table (snd (expireCache s)))) \<and>
           drop (nat lim + 100) (syncedByRecency (table s)) \<noteq> [] \<and>
           set (drop (nat lim + 100) (syncedByRecency (table s))) \<subseteq> set (table (snd (expireCache s)))))"
proof (intro conjI impI)
  show "length (selectExpired lim (table s)) \<le> 100"
    by (simp add: length_selectExpired)
next
  assume d: "distinct (map id_col (table s))"
  have "length (table (snd (expireCache s))) \<le> length (table s)"
    by (simp add: expireCache_result [OF assms] table_fold_delete)
  with length_table_expireCache [OF assms d] show "length (table s) - length (table (snd (expireCache s))) \<le> 100"
    by (simp add: length_selectExpired)
next
  assume d: "distinct (map id_col (table s))"
    and m: "nat lim + 100 < length (syncedByRecency (table s))"
  show l: "length (selectExpired lim (table s)) = 100"
    using m by (simp add: length_selectExpired)
  show a: "length (syncedByRecency (table (snd (expireCache s)))) = length (syncedByRecency (table s)) - 100"
    using synced_after_expireCache [OF assms d] l by simp
  show "nat lim < length (syncedByRecency (table (snd (expireCache s))))"
    using a m by simp
  show "drop (nat lim + 100) (syncedByRecency (table s)) \<noteq> []"
    using m by simp
  show "set (drop (nat lim + 100) (syncedByRecency (table s))) \<subseteq> set (table (snd (expireCache s)))"
  proof
    fix row assume r: "row \<in> set (drop (nat lim + 100) (syncedByRecency (table s)))"
    let ?ys = "drop (nat lim) (syncedByRecency (table s))"
    have dy: "distinct ?ys"
      using d by (simp add: distinct_syncedByRecency distinct_map)
    have "row \<in> set (drop 100 ?ys)"
      using r by (simp add: add.commute)
    then have "row \<notin> set (take 100 ?ys)"
      using take_drop_disjoint [OF dy, of 100] by auto
    then have "row \<notin> set (selectExpired lim (table s))"
      by (simp add: selectExpired_def)
    moreover have "row \<in> set (table s)"
      using r set_drop_subset [of "nat lim + 100" "syncedByRecency (table s)"]
      by (auto simp: set_syncedByRecency)
    ultimately show "row \<in> set (table (snd (expireCache s)))"
      by (simp add: table_expireCache [OF assms d])
  qed
qed

theorem expireCache_evicts_beyond_limit_witness:
  "cacheLimit (options (queueOf (syncedRows 150) testDisk)) = Some 100 \<and>
   distinct (map id_col (table (queueOf (syncedRows 150) testDisk))) \<and>
   length (syncedByRecency (table (queueOf (syncedRows 150) testDisk))) = 150 \<and>
   length (selectExpired 100 (table (queueOf (syncedRows 150) testDisk))) = 50 \<and>
   length (table (snd (expireCache (queueOf (syncedRows 150) testDisk)))) = 100 \<and>
   length (syncedByRecency (table (snd (expireCache (queueOf (syncedRows 150) testDisk))))) = 100"
proof -
  let ?q = "queueOf (syncedRows 150) testDisk"
  have h1: "cacheLimit (options ?q) = Some 100"
    by (rule cacheLimit_queueOf)
  have h2: "distinct (map id_col (table ?q))"
    by (simp add: distinct_ids_syncedRows)
  have h3: "(100::int) = 100 \<and> length (syncedByRecency (table ?q)) = 150"
    by simp
  from expireCache_evicts_beyond_limit [OF h1 h2] h3
  have "length (selectExpired 100 (table ?q)) = 50 \<and>
        length (table (snd (expireCache ?q))) = length (table ?q) - 50 \<and>
        length (syncedByRecency (table (snd (expireCache ?q)))) = 100"
    by blast
  with h1 h2 h3 show ?thesis
    by simp
qed

text \<open>
  C2 as stated ("deletes exactly the synced records beyond the limit", all
  count minus \<^verbatim>\<open>cacheLimit\<close> of them) fails with 101 synced records and a limit
  of 0: one synced record is left after the pass.
\<close>

theorem expireCache_all_beyond_limit_counterexample:
  "cacheLimit (options manySynced) = Some 0 \<and>
   length (syncedByRecency (table manySynced)) = 101 \<and>
   length (syncedByRecency (table (snd (expireCache manySynced)))) = 1"
proof -
  have d: "distinct (map id_col (table manySynced))"
    by (simp add: manySynced_simps distinct_ids_syncedRows)
  have "length (syncedByRecency (table (snd (expireCache manySynced)))) =
          length (syncedByRecency (table manySynced)) - length (selectExpired 0 (table manySynced))"
    by (rule synced_after_expireCache [OF manySynced_simps(1) d])
  then show ?thesis
    by (simp add: manySynced_simps length_selectExpired)
qed

theorem expireCache_at_most_100_witness:
  "cacheLimit (options manySynced) = Some 0 \<and>
   distinct (map id_col (table manySynced)) \<and>
   nat 0 + 100 < length (syncedByRecency (table manySynced)) \<and>
   length (selectExpired 0 (table manySynced)) = 100 \<and>
   length (table manySynced) - length (table (snd (expireCache manySynced))) \<le> 100 \<and>
   drop (nat 0 + 100) (syncedByRecency (table manySynced)) \<noteq> [] \<and>
   set (drop (nat 0 + 100) (syncedByRecency (table manySynced)))
     \<subseteq> set (table (snd (expireCache manySynced)))"
proof -
  have h1: "cacheLimit (options manySynced) = Some 0"
    by (rule manySynced_simps(1))
  have h2: "distinct (map id_col (table manySynced))"
    by (simp add: manySynced_simps distinct_ids_syncedRows)
  have h3: "nat 0 + 100 < length (syncedByRecency (table manySynced))"
    by (simp add: manySynced_simps)
  from expireCache_at_most_100 [OF h1] h2 h3
  have "length (selectExpired 0 (table manySynced)) = 100 \<and>
        length (table manySynced) - length (table (snd (expireCache manySynced))) \<le> 100 \<and>
        drop (nat 0 + 100) (syncedByRecency (table manySynced)) \<noteq> [] \<and>
        set (drop (nat 0 + 100) (syncedByRecency (table manySynced)))
          \<subseteq> set (table (snd (expireCache manySynced)))"
    by blast
  with h1 h2 h3 show ?thesis
    by blast
qed

end
